theory Spec2Isabelle
  imports Complex_Main "HOL-Library.Sublist"
begin

section \<open>Python strings and the library calls the two scripts rely on\<close>

text \<open>
  A Python \<open>str\<close> is a sequence of code points. It is modelled as a \<open>string\<close> whose
  characters are the code points 0 to 255 (so \<open>CHR 0xF1\<close> is the n-tilde of the age
  pattern). The character classes below are those of Python 3 on that range:
  \<open>str.isspace\<close> and the regex class \<open>\s\<close> agree, \<open>\w\<close> is \<open>str.isalnum\<close> plus the
  underscore, \<open>\d\<close> has the ten ASCII digits only.
\<close>

type_synonym path = string

text \<open>
  The exceptions that reach the scripts: \<open>re.error\<close> from the regex compiler, the
  \<open>OSError\<close> family from the file system calls, the PDF library's error for a file
  it cannot parse, and \<open>KeyError\<close> from a dictionary.
\<close>

datatype exn =
    Re_error
  | FileNotFoundError
  | FileExistsError
  | IsADirectoryError
  | NotADirectoryError
  | PermissionError
  | FileDataError
  | KeyError

definition is_space :: "char \<Rightarrow> bool" where
  "is_space c = (let n = (of_char c :: nat) in
     (9 \<le> n \<and> n \<le> 13) \<or> (28 \<le> n \<and> n \<le> 32) \<or> n = 133 \<or> n = 160)"

definition is_digit :: "char \<Rightarrow> bool" where
  "is_digit c = (let n = (of_char c :: nat) in 48 \<le> n \<and> n \<le> 57)"

definition is_word :: "char \<Rightarrow> bool" where
  "is_word c = (let n = (of_char c :: nat) in
     (48 \<le> n \<and> n \<le> 57) \<or> (65 \<le> n \<and> n \<le> 90) \<or> n = 95 \<or> (97 \<le> n \<and> n \<le> 122)
     \<or> n = 170 \<or> n = 178 \<or> n = 179 \<or> n = 181 \<or> n = 185 \<or> n = 186
     \<or> (188 \<le> n \<and> n \<le> 190) \<or> (192 \<le> n \<and> n \<le> 214) \<or> (216 \<le> n \<and> n \<le> 246)
     \<or> 248 \<le> n)"

text \<open>
  Upper and lower case differ in bit 5 (value 32) of the code point. \<open>str.upper\<close> sends
  the sharp s (223) to \<open>SS\<close>; the micro sign (181) and y-diaeresis (255) have capitals
  beyond 255, which no text of the model contains, so they stand for their own capitals.
\<close>

fun clear_bit5 :: "char \<Rightarrow> char" where
  "clear_bit5 (Char b0 b1 b2 b3 b4 b5 b6 b7) = Char b0 b1 b2 b3 b4 False b6 b7"

fun set_bit5 :: "char \<Rightarrow> char" where
  "set_bit5 (Char b0 b1 b2 b3 b4 b5 b6 b7) = Char b0 b1 b2 b3 b4 True b6 b7"

definition upper_char :: "char \<Rightarrow> string" where
  "upper_char c = (let n = (of_char c :: nat) in
     if 97 \<le> n \<and> n \<le> 122 then [clear_bit5 c]
     else if n = 223 then ''SS''
     else if 224 \<le> n \<and> n \<le> 254 \<and> n \<noteq> 247 then [clear_bit5 c]
     else [c])"

definition lower_char :: "char \<Rightarrow> char" where
  "lower_char c = (let n = (of_char c :: nat) in
     if 65 \<le> n \<and> n \<le> 90 then set_bit5 c
     else if 192 \<le> n \<and> n \<le> 222 \<and> n \<noteq> 215 then set_bit5 c
     else c)"

definition upper :: "string \<Rightarrow> string" where
  "upper s = concat (map upper_char s)"

definition lower :: "string \<Rightarrow> string" where
  "lower s = map lower_char s"

definition strip :: "string \<Rightarrow> string" where
  "strip s = rev (dropWhile is_space (rev (dropWhile is_space s)))"

definition endswith :: "string \<Rightarrow> string \<Rightarrow> bool" where
  "endswith s ending = prefix (rev ending) (rev s)"

text \<open>The Python test \<open>sub in s\<close> on strings.\<close>

fun str_in :: "string \<Rightarrow> string \<Rightarrow> bool" where
  "str_in sub [] = (sub = [])"
| "str_in sub (c # cs) = (prefix sub (c # cs) \<or> str_in sub cs)"

text \<open>\<open>sep.join(items)\<close>.\<close>

fun str_join :: "string \<Rightarrow> string list \<Rightarrow> string" where
  "str_join sep [] = []"
| "str_join sep [x] = x"
| "str_join sep (x # y # ys) = x @ sep @ str_join sep (y # ys)"

text \<open>
  Truthiness of an optional string: \<open>None\<close> and the empty string are false.
\<close>

definition truthy :: "string option \<Rightarrow> bool" where
  "truthy s = (case s of None \<Rightarrow> False | Some v \<Rightarrow> v \<noteq> [])"

text \<open>
  A \<open>dict\<close> keeps insertion order: an association list, where a store replaces the
  value of a key that is present (at its place) and appends a new key.
\<close>

fun dict_set :: "'k \<Rightarrow> 'v \<Rightarrow> ('k \<times> 'v) list \<Rightarrow> ('k \<times> 'v) list" where
  "dict_set k v [] = [(k, v)]"
| "dict_set k v (p # ps) = (if fst p = k then (k, v) # ps else p # dict_set k v ps)"

text \<open>Reading a \<open>Counter\<close>: a key that is absent counts 0.\<close>

definition counter_get :: "(string \<times> int) list \<Rightarrow> string \<Rightarrow> int" where
  "counter_get counts k = (case map_of counts k of None \<Rightarrow> 0 | Some c \<Rightarrow> c)"

section \<open>The format classifier (PDF2JSON/separate-formats.py)\<close>

subsection \<open>The three regular expressions\<close>

text \<open>
  \<open>check_graph_titles\<close> builds three patterns around the escaped, upper-cased label
  \<open>T\<close> (so \<open>T\<close> is matched literally):
  \<^item> \<open>\bT\b\<close>,
  \<^item> \<open>T(?=\s|$|:)\<close>,
  \<^item> \<open>(?<=\s|^)T(?=\s|$|:)\<close>.
  Python's \<open>re\<close> module compiles a pattern on first use and accepts a look-behind only
  when all its alternatives have one width. The alternatives \<open>\s\<close> and \<open>^\<close> of the third
  pattern have widths 1 and 0, so \<open>re.findall\<close> raises \<open>re.error\<close> (look-behind requires
  fixed-width pattern) for it, whatever the text.
\<close>

datatype pattern =
    Word_bounded string
  | Followed string
  | Preceded_followed string

text \<open>
  A position in the text is the character before it (if any) and the text from it on.
  \<open>\b\<close> holds where exactly one of the two neighbours is a word character.
\<close>

definition word_boundary :: "char option \<Rightarrow> string \<Rightarrow> bool" where
  "word_boundary prev rest =
     ((case prev of None \<Rightarrow> False | Some c \<Rightarrow> is_word c)
      \<noteq> (case rest of [] \<Rightarrow> False | c # _ \<Rightarrow> is_word c))"

text \<open>
  The look-ahead \<open>(?=\s|$|:)\<close>; without the MULTILINE flag \<open>$\<close> holds at the end of
  the text and before a newline that ends the text.
\<close>

definition followed_ok :: "string \<Rightarrow> bool" where
  "followed_ok rest =
     (case rest of [] \<Rightarrow> True
      | c # cs \<Rightarrow> is_space c \<or> (c = CHR 0x0A \<and> cs = []) \<or> c = CHR '':'')"

definition last_before :: "char option \<Rightarrow> string \<Rightarrow> char option" where
  "last_before prev t = (if t = [] then prev else Some (last t))"

definition matches_at :: "pattern \<Rightarrow> char option \<Rightarrow> string \<Rightarrow> bool" where
  "matches_at p prev rest =
     (case p of
        Word_bounded t \<Rightarrow>
          prefix t rest \<and> word_boundary prev rest
          \<and> word_boundary (last_before prev t) (drop (length t) rest)
      | Followed t \<Rightarrow> prefix t rest \<and> followed_ok (drop (length t) rest)
      | Preceded_followed t \<Rightarrow> False)"

definition literal :: "pattern \<Rightarrow> string" where
  "literal p = (case p of Word_bounded t \<Rightarrow> t | Followed t \<Rightarrow> t | Preceded_followed t \<Rightarrow> t)"

text \<open>
  The scan of \<open>re.findall\<close>: matches are taken from left to right and do not overlap.
  After a match of \<open>n\<close> characters the next match starts at least \<open>max n 1\<close> positions
  later; \<open>skip\<close> counts the positions still covered by the last match.
\<close>

fun scan :: "pattern \<Rightarrow> nat \<Rightarrow> char option \<Rightarrow> string \<Rightarrow> string list" where
  "scan p skip prev [] = (if skip = 0 \<and> matches_at p prev [] then [literal p] else [])"
| "scan p skip prev (c # cs) =
     (if skip = 0 \<and> matches_at p prev (c # cs)
      then literal p # scan p (length (literal p) - 1) (Some c) cs
      else scan p (skip - 1) (Some c) cs)"

definition re_findall :: "pattern \<Rightarrow> string \<Rightarrow> exn + string list" where
  "re_findall p text =
     (case p of Preceded_followed t \<Rightarrow> Inl Re_error | _ \<Rightarrow> Inr (scan p 0 None text))"

subsection \<open>Templates and check_graph_titles\<close>

type_synonym template = "(string \<times> int) list"

definition FORMAT1_TITLES :: template where
  "FORMAT1_TITLES =
     [(''I'', 1), (''II'', 1), (''III'', 1), (''V1'', 2), (''V2'', 1), (''V3'', 1),
      (''V4'', 1), (''V5'', 1), (''V6'', 1), (''aVR'', 1), (''aVL'', 1), (''aVF'', 1)]"

definition FORMAT2_TITLES :: template where
  "FORMAT2_TITLES =
     [(''I'', 1), (''II'', 2), (''III'', 1), (''V1'', 2), (''V2'', 1), (''V3'', 1),
      (''V4'', 1), (''V5'', 2), (''V6'', 1), (''aVR'', 1), (''aVL'', 1), (''aVF'', 1)]"

definition ECG_FORMATS :: "(string \<times> template) list" where
  "ECG_FORMATS = [(''format1'', FORMAT1_TITLES), (''format2'', FORMAT2_TITLES)]"

record diagnostics =
  missing_titles :: "string list"
  unexpected_counts :: "(string \<times> int \<times> int) list"
  found_titles :: "string list"

record results =
  is_valid :: bool
  actual_counts :: "(string \<times> int) list"
  expected_counts :: template
  diagnostics :: diagnostics

text \<open>
  The inner loop over the patterns of one label: \<open>Some count\<close> when a pattern had a
  match (\<open>found\<close> is set and the loop breaks), \<open>None\<close> when the list is exhausted.
\<close>

fun try_patterns :: "pattern list \<Rightarrow> string \<Rightarrow> exn + int option" where
  "try_patterns [] processed_text = Inr None"
| "try_patterns (p # ps) processed_text =
     (case re_findall p processed_text of
        Inl e \<Rightarrow> Inl e
      | Inr matches \<Rightarrow>
          if matches \<noteq> [] then Inr (Some (int (length matches)))
          else try_patterns ps processed_text)"

definition patterns :: "string \<Rightarrow> pattern list" where
  "patterns title_upper =
     [Word_bounded title_upper, Followed title_upper, Preceded_followed title_upper]"

definition count_title :: "string \<Rightarrow> string \<Rightarrow> exn + int" where
  "count_title processed_text title =
     (case try_patterns (patterns (upper title)) processed_text of
        Inl e \<Rightarrow> Inl e
      | Inr (Some count) \<Rightarrow> Inr count
      | Inr None \<Rightarrow> Inr 0)"

text \<open>The first loop of \<open>check_graph_titles\<close>, filling \<open>actual_counts\<close>.\<close>

fun count_pass :: "string \<Rightarrow> template \<Rightarrow> (string \<times> int) list \<Rightarrow> exn + (string \<times> int) list" where
  "count_pass processed_text [] counts = Inr counts"
| "count_pass processed_text ((title, expected_count) # rest) counts =
     (case count_title processed_text title of
        Inl e \<Rightarrow> Inl e
      | Inr count \<Rightarrow> count_pass processed_text rest (dict_set title count counts))"

text \<open>The second loop, filling the diagnostics.\<close>

fun analyze :: "template \<Rightarrow> (string \<times> int) list \<Rightarrow> diagnostics \<Rightarrow> diagnostics" where
  "analyze [] counts d = d"
| "analyze ((title, expected_count) # rest) counts d =
     (let actual_count = counter_get counts title
      in analyze rest counts
           (if actual_count = 0 then d\<lparr>missing_titles := missing_titles d @ [title]\<rparr>
            else if actual_count \<noteq> expected_count
            then d\<lparr>unexpected_counts :=
                     dict_set title (expected_count, actual_count) (unexpected_counts d)\<rparr>
            else d\<lparr>found_titles := found_titles d @ [title]\<rparr>))"

definition no_diagnostics :: diagnostics where
  "no_diagnostics = \<lparr>missing_titles = [], unexpected_counts = [], found_titles = []\<rparr>"

definition check_graph_titles :: "string \<Rightarrow> template \<Rightarrow> exn + results" where
  "check_graph_titles text expected_titles =
     (let processed_text = upper text
      in case count_pass processed_text expected_titles [] of
           Inl e \<Rightarrow> Inl e
         | Inr counts \<Rightarrow>
             let d = analyze expected_titles counts no_diagnostics;
                 valid = (length (missing_titles d) = 0 \<and> length (unexpected_counts d) = 0)
             in Inr \<lparr>is_valid = valid, actual_counts = counts,
                     expected_counts = expected_titles, diagnostics = d\<rparr>)"

subsection \<open>check_all_formats and validate_ecg_format\<close>

text \<open>
  The loop of \<open>check_all_formats\<close> over the format dictionary, with its two local
  variables as arguments. The function reads the module constant \<open>ECG_FORMATS\<close>;
  \<open>check_all_formats_in\<close> is its body for any format dictionary.
\<close>

fun formats_loop ::
  "(string \<times> template) list \<Rightarrow> string \<Rightarrow> string option \<Rightarrow> results option
     \<Rightarrow> exn + (string option \<times> results option)" where
  "formats_loop [] text matching_format matching_results =
     Inr (matching_format, matching_results)"
| "formats_loop ((format_name, format_titles) # rest) text matching_format matching_results =
     (case check_graph_titles text format_titles of
        Inl e \<Rightarrow> Inl e
      | Inr res \<Rightarrow>
          if is_valid res
          then (if matching_format \<noteq> None then Inr (None, None)
                else formats_loop rest text (Some format_name) (Some res))
          else formats_loop rest text matching_format matching_results)"

definition check_all_formats_in ::
  "(string \<times> template) list \<Rightarrow> string \<Rightarrow> exn + (string option \<times> results option)" where
  "check_all_formats_in formats text = formats_loop formats text None None"

definition check_all_formats :: "string \<Rightarrow> exn + (string option \<times> results option)" where
  "check_all_formats text = check_all_formats_in ECG_FORMATS text"

text \<open>Whether a template's counts are exactly met: the check returns and is valid.\<close>

definition template_matches :: "string \<Rightarrow> template \<Rightarrow> bool" where
  "template_matches text t =
     (case check_graph_titles text t of Inl e \<Rightarrow> False | Inr res \<Rightarrow> is_valid res)"


section \<open>Paths, documents and the file system\<close>

text \<open>The functions of \<open>os.path\<close> (its POSIX flavour) that the scripts call.\<close>

definition basename :: "path \<Rightarrow> string" where
  "basename p = rev (takeWhile (\<lambda>c. c \<noteq> CHR ''/'') (rev p))"

text \<open>The part of a path up to and including its last slash.\<close>

definition head_of :: "path \<Rightarrow> string" where
  "head_of p = rev (dropWhile (\<lambda>c. c \<noteq> CHR ''/'') (rev p))"

definition dirname :: "path \<Rightarrow> string" where
  "dirname p =
     (let h = head_of p
      in if h \<noteq> [] \<and> h \<noteq> replicate (length h) (CHR ''/'')
         then rev (dropWhile (\<lambda>c. c = CHR ''/'') (rev h)) else h)"

text \<open>
  \<open>splitext\<close> cuts at the last dot of the last component, unless only dots precede it
  there.
\<close>

definition splitext :: "path \<Rightarrow> string \<times> string" where
  "splitext p =
     (let name = basename p;
          stem = rev (tl (dropWhile (\<lambda>c. c \<noteq> CHR ''.'') (rev name)));
          ext = CHR ''.'' # rev (takeWhile (\<lambda>c. c \<noteq> CHR ''.'') (rev name))
      in if CHR ''.'' \<in> set name \<and> list_ex (\<lambda>c. c \<noteq> CHR ''.'') stem
         then (head_of p @ stem, ext) else (p, []))"

definition join :: "path \<Rightarrow> string \<Rightarrow> path" where
  "join a b =
     (if prefix ''/'' b then b
      else if a = [] \<or> endswith a ''/'' then a @ b
      else a @ ''/'' @ b)"

text \<open>
  A page as the PDF library shows it. \<open>page_text\<close> is \<open>page.get_text()\<close>, \<open>clip_text r\<close>
  is \<open>page.get_text("text", clip=r)\<close>, \<open>blocks\<close> is \<open>page.get_text("dict")["blocks"]\<close>
  (a block has a type and lines, a line is the list of the texts of its spans). These
  describe the page as it was opened; \<open>redactions\<close> and \<open>inserted\<close> record what the
  script then does to it: the redaction annotations it adds and applies, and the texts
  it inserts with their insertion points. Coordinates are real numbers (the
  rounding of Python's floats is not modelled).
\<close>

type_synonym rect = "real \<times> real \<times> real \<times> real"

record block =
  block_type :: int
  block_lines :: "string list list"

record page =
  page_text :: string
  clip_text :: "rect \<Rightarrow> string"
  page_width :: real
  page_height :: real
  blocks :: "block list"
  redactions :: "rect list"
  inserted :: "((real \<times> real) \<times> string) list"

record document =
  pages :: "page list"

text \<open>
  The file system: \<open>files\<close> maps the path of a regular file to its content (a PDF the
  library can open, or anything else), \<open>listing\<close> maps the path of a directory to the
  names in it, and \<open>denied\<close> holds the paths the process may not create or write.
  Distinct paths name distinct files (no links), and creating a file or directory
  does not update the listing of its parent, which no function below reads again.
\<close>

datatype content = Pdf document | Other

record filesystem =
  files :: "path \<Rightarrow> content option"
  listing :: "path \<Rightarrow> string list option"
  denied :: "path \<Rightarrow> bool"

definition path_exists :: "filesystem \<Rightarrow> path \<Rightarrow> bool" where
  "path_exists fs p = (files fs p \<noteq> None \<or> listing fs p \<noteq> None)"

definition listdir :: "filesystem \<Rightarrow> path \<Rightarrow> exn + string list" where
  "listdir fs p =
     (case listing fs p of
        Some names \<Rightarrow> Inr names
      | None \<Rightarrow> Inl (if files fs p \<noteq> None then NotADirectoryError else FileNotFoundError))"

text \<open>\<open>os.makedirs(d, exist_ok=True)\<close>.\<close>

definition makedirs :: "path \<Rightarrow> filesystem \<Rightarrow> (exn + unit) \<times> filesystem" where
  "makedirs d fs =
     (if d = [] then (Inl FileNotFoundError, fs)
      else if files fs d \<noteq> None then (Inl FileExistsError, fs)
      else if listing fs d \<noteq> None then (Inr (), fs)
      else if denied fs d then (Inl PermissionError, fs)
      else (Inr (), fs\<lparr>listing := (listing fs)(d \<mapsto> [])\<rparr>))"

text \<open>\<open>fitz.open(p)\<close>.\<close>

definition fitz_open :: "filesystem \<Rightarrow> path \<Rightarrow> exn + document" where
  "fitz_open fs p =
     (case files fs p of
        None \<Rightarrow> Inl (if listing fs p \<noteq> None then FileDataError else FileNotFoundError)
      | Some Other \<Rightarrow> Inl FileDataError
      | Some (Pdf doc) \<Rightarrow> Inr doc)"

text \<open>\<open>doc.save(p, ...)\<close>.\<close>

definition doc_save :: "document \<Rightarrow> path \<Rightarrow> filesystem \<Rightarrow> (exn + unit) \<times> filesystem" where
  "doc_save doc p fs =
     (if listing fs p \<noteq> None then (Inl IsADirectoryError, fs)
      else if denied fs p then (Inl PermissionError, fs)
      else (Inr (), fs\<lparr>files := (files fs)(p \<mapsto> Pdf doc)\<rparr>))"

text \<open>
  \<open>shutil.copy2(src, dst)\<close>; a destination that is a directory receives the file under
  the source's base name.
\<close>

definition copy2 :: "path \<Rightarrow> path \<Rightarrow> filesystem \<Rightarrow> (exn + unit) \<times> filesystem" where
  "copy2 src dst fs =
     (let target = (if listing fs dst \<noteq> None then join dst (basename src) else dst)
      in case files fs src of
           None \<Rightarrow>
             (Inl (if listing fs src \<noteq> None then IsADirectoryError else FileNotFoundError), fs)
         | Some c \<Rightarrow>
             if listing fs target \<noteq> None then (Inl IsADirectoryError, fs)
             else if denied fs target then (Inl PermissionError, fs)
             else (Inr (), fs\<lparr>files := (files fs)(target \<mapsto> c)\<rparr>))"


section \<open>The redactor (Censoring-Script/pdf_censor.py)\<close>

subsection \<open>What is read from a rectangle\<close>

definition extract_gender :: "string \<Rightarrow> string option" where
  "extract_gender text =
     (if str_in ''Masculino'' text then Some ''Masculino''
      else if str_in ''Femenino'' text then Some ''Femenino''
      else None)"

text \<open>
  The age pattern \<open>\((\d+) anos\)\<close> (with an n-tilde): an opening parenthesis, one or more digits, and
  the literal below. The digits are followed by a space, so the greedy \<open>\d+\<close> takes
  all of them. \<open>age_at\<close> tries the pattern at the start of a text and gives group 1;
  \<open>age_search\<close> is \<open>re.search\<close>, the leftmost match.
\<close>

definition anos :: string where
  "anos = '' a'' @ [CHR 0xF1] @ ''os)''"

definition age_at :: "string \<Rightarrow> string option" where
  "age_at s =
     (case s of
        [] \<Rightarrow> None
      | c # cs \<Rightarrow>
          if c = CHR ''('' \<and> takeWhile is_digit cs \<noteq> [] \<and> prefix anos (dropWhile is_digit cs)
          then Some (takeWhile is_digit cs) else None)"

fun age_search :: "string \<Rightarrow> string option" where
  "age_search [] = None"
| "age_search (c # cs) =
     (case age_at (c # cs) of Some d \<Rightarrow> Some d | None \<Rightarrow> age_search cs)"

definition extract_age :: "string \<Rightarrow> string option" where
  "extract_age text =
     (case age_search text of None \<Rightarrow> None | Some d \<Rightarrow> Some (''('' @ d @ anos))"

record info =
  info_rect :: rect
  gender :: "string option"
  age :: "string option"

subsection \<open>The three passes of censor_pdf\<close>

text \<open>
  First pass: the loop over \<open>enumerate(all_rectangles)\<close> that fills \<open>extracted_info\<close>,
  a dictionary keyed by the index of the rectangle.
\<close>

fun extract_pass :: "page \<Rightarrow> real \<Rightarrow> nat \<Rightarrow> real list list \<Rightarrow> (nat \<times> info) list" where
  "extract_pass pg width i [] = []"
| "extract_pass pg width i (r # rects) =
     (if length r \<noteq> 4 then extract_pass pg width (Suc i) rects
      else
        let x1 = r ! 0; y1 = r ! 1; x2 = r ! 2; y2 = r ! 3;
            y1_transformed = width - y2;
            y2_transformed = width - y1;
            redact_rect = (x1, y1_transformed, x2, y2_transformed);
            text = clip_text pg redact_rect;
            g = extract_gender text;
            a = extract_age text
        in (if truthy g \<or> truthy a
            then [(i, \<lparr>info_rect = redact_rect, gender = g, age = a\<rparr>)] else [])
           @ extract_pass pg width (Suc i) rects)"

text \<open>Second pass: the redaction annotations added to the page.\<close>

fun redact_pass :: "real \<Rightarrow> real list list \<Rightarrow> rect list" where
  "redact_pass width [] = []"
| "redact_pass width (r # rects) =
     (if length r \<noteq> 4 then redact_pass width rects
      else
        let x1 = r ! 0; y1 = r ! 1; x2 = r ! 2; y2 = r ! 3;
            y1_transformed = width - y2;
            y2_transformed = width - y1;
            redact_rect = (x1, y1_transformed, x2, y2_transformed)
        in redact_rect # redact_pass width rects)"

text \<open>Third pass: the texts inserted at the fixed point (90, 784).\<close>

fun overlay_pass :: "(nat \<times> info) list \<Rightarrow> ((real \<times> real) \<times> string) list" where
  "overlay_pass [] = []"
| "overlay_pass ((i, entry) # rest) =
     (let text_items =
            (case gender entry of None \<Rightarrow> [] | Some g \<Rightarrow> if g \<noteq> [] then [g] else [])
            @ (case age entry of None \<Rightarrow> [] | Some a \<Rightarrow> if a \<noteq> [] then [a] else [])
      in (if text_items \<noteq> [] then [((90, 784), str_join '' '' text_items)] else [])
         @ overlay_pass rest)"

text \<open>
  The body of the \<open>try\<close> block up to the save: \<open>None\<close> where the source returns
  \<open>None\<close>, otherwise the document that is saved.
\<close>

definition censor_document ::
  "document \<Rightarrow> (int \<times> real list list) list \<Rightarrow> bool \<Rightarrow> document option" where
  "censor_document doc coordinates_dict include_info =
     (if length (pages doc) = 0 then None
      else
        let pg = pages doc ! 0
        in if strip (page_text pg) = [] then None
           else
             let is_multi_page = (length (pages doc) > 1);
                 width = page_width pg;
                 all_rectangles = concat (map snd coordinates_dict);
                 extracted_info = extract_pass pg width 0 all_rectangles
             in if extracted_info = [] then None
                else
                  let doc1 = (if is_multi_page then \<lparr>pages = [pg]\<rparr> else doc);
                      pg1 = pages doc1 ! 0;
                      pg2 = pg1\<lparr>redactions := redactions pg1 @ redact_pass width all_rectangles\<rparr>;
                      pg3 = (if include_info
                             then pg2\<lparr>inserted := inserted pg2 @ overlay_pass extracted_info\<rparr>
                             else pg2)
                  in Some (doc1\<lparr>pages := (pages doc1)[0 := pg3]\<rparr>))"

definition output_path_of :: "path \<Rightarrow> string option \<Rightarrow> path" where
  "output_path_of pdf_path output_dir =
     (let base_name = basename pdf_path;
          (base_name_no_ext, ext) = splitext base_name
      in case output_dir of
           None \<Rightarrow> join (dirname pdf_path) (base_name_no_ext @ ''_censored'' @ ext)
         | Some d \<Rightarrow>
             if d \<noteq> [] then join d (base_name_no_ext @ ''_censored'' @ ext)
             else join (dirname pdf_path) (base_name_no_ext @ ''_censored'' @ ext))"

text \<open>The statement \<open>if output_dir: os.makedirs(output_dir, exist_ok=True)\<close>.\<close>

definition prepare_output_dir :: "string option \<Rightarrow> filesystem \<Rightarrow> (exn + unit) \<times> filesystem" where
  "prepare_output_dir output_dir fs =
     (case output_dir of
        None \<Rightarrow> (Inr (), fs)
      | Some d \<Rightarrow> if d \<noteq> [] then makedirs d fs else (Inr (), fs))"

definition censor_pdf ::
  "path \<Rightarrow> (int \<times> real list list) list \<Rightarrow> string option \<Rightarrow> bool \<Rightarrow> filesystem
     \<Rightarrow> (exn + path option) \<times> filesystem" where
  "censor_pdf pdf_path coordinates_dict output_dir include_info fs =
     (case prepare_output_dir output_dir fs of
        (Inl e, fs1) \<Rightarrow> (Inl e, fs1)
      | (Inr u, fs1) \<Rightarrow>
          let output_path = output_path_of pdf_path output_dir
          in case fitz_open fs1 pdf_path of
               Inl e \<Rightarrow> (Inl e, fs1)
             | Inr doc \<Rightarrow>
                 (case censor_document doc coordinates_dict include_info of
                    None \<Rightarrow> (Inr None, fs1)
                  | Some doc' \<Rightarrow>
                      (case doc_save doc' output_path fs1 of
                         (Inl e, fs2) \<Rightarrow> (Inl e, fs2)
                       | (Inr u', fs2) \<Rightarrow> (Inr (Some output_path), fs2))))"

subsection \<open>process_pdf_folder\<close>

definition is_pdf_name :: "string \<Rightarrow> bool" where
  "is_pdf_name file_name = endswith (lower file_name) ''.pdf''"

text \<open>
  The two statements that copy a failed file to the \<open>Failed\<close> folder; they occur
  twice in the source, in the \<open>else\<close> branch and in the \<open>except\<close> handler.
\<close>

definition copy_to_failed :: "path \<Rightarrow> path \<Rightarrow> string \<Rightarrow> filesystem \<Rightarrow> (exn + unit) \<times> filesystem" where
  "copy_to_failed failed_dir pdf_path file_name fs =
     (case makedirs failed_dir fs of
        (Inl e, fs1) \<Rightarrow> (Inl e, fs1)
      | (Inr u, fs1) \<Rightarrow> copy2 pdf_path (join failed_dir file_name) fs1)"

text \<open>
  The \<open>try\<close> block for one file. Its result carries the two lists as they are when
  the block ends or raises: an exception does not undo an \<open>append\<close>.
\<close>

definition try_file ::
  "path \<Rightarrow> (int \<times> real list list) list \<Rightarrow> path \<Rightarrow> bool \<Rightarrow> path \<Rightarrow> string
     \<Rightarrow> path list \<Rightarrow> string list \<Rightarrow> filesystem
     \<Rightarrow> (exn + unit) \<times> (path list \<times> string list) \<times> filesystem" where
  "try_file folder_path coordinates_dict output_dir include_info failed_dir file_name
            processed_files failed_files fs =
     (let pdf_path = join folder_path file_name
      in case censor_pdf pdf_path coordinates_dict (Some output_dir) include_info fs of
           (Inl e, fs1) \<Rightarrow> (Inl e, (processed_files, failed_files), fs1)
         | (Inr output_path, fs1) \<Rightarrow>
             if truthy output_path
             then (Inr (), (processed_files @ [case output_path of Some p \<Rightarrow> p | None \<Rightarrow> []],
                            failed_files), fs1)
             else
               (case copy_to_failed failed_dir pdf_path file_name fs1 of
                  (r, fs2) \<Rightarrow> (r, (processed_files, failed_files @ [file_name]), fs2)))"

text \<open>The \<open>try\<close> statement with its \<open>except Exception\<close> handler.\<close>

definition process_file ::
  "path \<Rightarrow> (int \<times> real list list) list \<Rightarrow> path \<Rightarrow> bool \<Rightarrow> path \<Rightarrow> string
     \<Rightarrow> path list \<Rightarrow> string list \<Rightarrow> filesystem
     \<Rightarrow> (exn + (path list \<times> string list)) \<times> filesystem" where
  "process_file folder_path coordinates_dict output_dir include_info failed_dir file_name
                processed_files failed_files fs =
     (case try_file folder_path coordinates_dict output_dir include_info failed_dir file_name
                    processed_files failed_files fs of
        (Inr u, appended, fs1) \<Rightarrow> (Inr appended, fs1)
      | (Inl e, (processed1, failed1), fs1) \<Rightarrow>
          (case copy_to_failed failed_dir (join folder_path file_name) file_name fs1 of
             (Inl e2, fs2) \<Rightarrow> (Inl e2, fs2)
           | (Inr u, fs2) \<Rightarrow> (Inr (processed1, failed1 @ [file_name]), fs2)))"

fun folder_loop ::
  "path \<Rightarrow> (int \<times> real list list) list \<Rightarrow> path \<Rightarrow> bool \<Rightarrow> path \<Rightarrow> string list
     \<Rightarrow> path list \<Rightarrow> string list \<Rightarrow> filesystem
     \<Rightarrow> (exn + (path list \<times> string list)) \<times> filesystem" where
  "folder_loop folder_path coordinates_dict output_dir include_info failed_dir []
               processed_files failed_files fs = (Inr (processed_files, failed_files), fs)"
| "folder_loop folder_path coordinates_dict output_dir include_info failed_dir (file_name # rest)
               processed_files failed_files fs =
     (if is_pdf_name file_name
      then
        (case process_file folder_path coordinates_dict output_dir include_info failed_dir
                file_name processed_files failed_files fs of
           (Inl e, fs1) \<Rightarrow> (Inl e, fs1)
         | (Inr (processed1, failed1), fs1) \<Rightarrow>
             folder_loop folder_path coordinates_dict output_dir include_info failed_dir rest
               processed1 failed1 fs1)
      else folder_loop folder_path coordinates_dict output_dir include_info failed_dir rest
             processed_files failed_files fs)"

text \<open>
  \<open>process_pdf_folder\<close>, returning \<open>processed_files\<close> together with the local list
  \<open>failed_files\<close> whose length the function prints.
\<close>

definition process_pdf_folder ::
  "path \<Rightarrow> (int \<times> real list list) list \<Rightarrow> string option \<Rightarrow> bool \<Rightarrow> filesystem
     \<Rightarrow> (exn + (path list \<times> string list)) \<times> filesystem" where
  "process_pdf_folder folder_path coordinates_dict output_dir include_info fs =
     (let output_dir1 =
            (case output_dir of
               None \<Rightarrow> join (dirname folder_path) ''Censored PDFs''
             | Some d \<Rightarrow> d)
      in case makedirs output_dir1 fs of
           (Inl e, fs1) \<Rightarrow> (Inl e, fs1)
         | (Inr u, fs1) \<Rightarrow>
             let failed_dir = join output_dir1 ''Failed''
             in if \<not> path_exists fs1 folder_path then (Inr ([], []), fs1)
                else
                  (case listdir fs1 folder_path of
                     Inl e \<Rightarrow> (Inl e, fs1)
                   | Inr names \<Rightarrow>
                       folder_loop folder_path coordinates_dict output_dir1 include_info
                         failed_dir names [] [] fs1))"

section \<open>The classifier's folder driver\<close>

definition extract_text_from_first_page :: "filesystem \<Rightarrow> path \<Rightarrow> string" where
  "extract_text_from_first_page fs pdf_path =
     (if \<not> path_exists fs pdf_path then []
      else
        (case fitz_open fs pdf_path of
           Inl e \<Rightarrow> []
         | Inr doc \<Rightarrow>
             if length (pages doc) = 0 then []
             else
               concat (map (\<lambda>b. if block_type b = 0
                                 then concat (map (\<lambda>line. concat line @ [CHR 0x0A]) (block_lines b))
                                 else [])
                         (blocks (pages doc ! 0)))))"

text \<open>The diagnostic loop of the verbose branch; what it prints is not modelled.\<close>

fun diagnose_formats :: "(string \<times> template) list \<Rightarrow> string \<Rightarrow> exn + unit" where
  "diagnose_formats [] text = Inr ()"
| "diagnose_formats ((format_name, format_titles) # rest) text =
     (case check_graph_titles text format_titles of
        Inl e \<Rightarrow> Inl e
      | Inr format_results \<Rightarrow> diagnose_formats rest text)"

definition validate_ecg_format ::
  "filesystem \<Rightarrow> path \<Rightarrow> bool \<Rightarrow> exn + (string option \<times> results option)" where
  "validate_ecg_format fs pdf_path verbose =
     (let text = extract_text_from_first_page fs pdf_path
      in case check_all_formats text of
           Inl e \<Rightarrow> Inl e
         | Inr (matching_format, res) \<Rightarrow>
             if verbose \<and> \<not> truthy matching_format
             then (case diagnose_formats ECG_FORMATS text of
                     Inl e \<Rightarrow> Inl e
                   | Inr u \<Rightarrow> Inr (matching_format, res))
             else Inr (matching_format, res))"

record stats =
  total :: nat
  correct :: nat
  incorrect :: nat

text \<open>
  The \<open>try\<close> block of \<open>main\<close> for one file; \<open>format_paths\<close> and \<open>incorrect_path\<close> are
  the folders set up before the loop. The result carries the counters as they are
  when the block ends or raises.
\<close>

definition try_validate ::
  "(string \<times> path) list \<Rightarrow> path \<Rightarrow> bool \<Rightarrow> path \<Rightarrow> stats \<Rightarrow> (string \<times> nat) list \<Rightarrow> filesystem
     \<Rightarrow> (exn + unit) \<times> (stats \<times> (string \<times> nat) list) \<times> filesystem" where
  "try_validate format_paths incorrect_path verbose pdf_file st format_stats fs =
     (case validate_ecg_format fs pdf_file verbose of
        Inl e \<Rightarrow> (Inl e, (st, format_stats), fs)
      | Inr (matching_format, res) \<Rightarrow>
          (case (if truthy matching_format then matching_format else None) of
             Some fmt \<Rightarrow>
               (let st1 = st\<lparr>correct := correct st + 1\<rparr>
                in case map_of format_stats fmt of
                     None \<Rightarrow> (Inl KeyError, (st1, format_stats), fs)
                   | Some n \<Rightarrow>
                       (let format_stats1 = dict_set fmt (n + 1) format_stats
                        in case map_of format_paths fmt of
                             None \<Rightarrow> (Inl KeyError, (st1, format_stats1), fs)
                           | Some format_path \<Rightarrow>
                               (case copy2 pdf_file (join format_path (basename pdf_file)) fs of
                                  (r, fs1) \<Rightarrow> (r, (st1, format_stats1), fs1))))
           | None \<Rightarrow>
               (let st1 = st\<lparr>incorrect := incorrect st + 1\<rparr>
                in case copy2 pdf_file (join incorrect_path (basename pdf_file)) fs of
                     (r, fs1) \<Rightarrow> (r, (st1, format_stats), fs1))))"

text \<open>
  The \<open>try\<close> statement with its handler; the handler's own copy sits in a nested
  \<open>try\<close> whose handler only prints.
\<close>

definition validate_file ::
  "(string \<times> path) list \<Rightarrow> path \<Rightarrow> bool \<Rightarrow> path \<Rightarrow> stats \<Rightarrow> (string \<times> nat) list \<Rightarrow> filesystem
     \<Rightarrow> (exn + (stats \<times> (string \<times> nat) list)) \<times> filesystem" where
  "validate_file format_paths incorrect_path verbose pdf_file st format_stats fs =
     (case try_validate format_paths incorrect_path verbose pdf_file st format_stats fs of
        (Inr u, counters, fs1) \<Rightarrow> (Inr counters, fs1)
      | (Inl e, (st1, format_stats1), fs1) \<Rightarrow>
          (let st2 = st1\<lparr>incorrect := incorrect st1 + 1\<rparr>
           in case copy2 pdf_file (join incorrect_path (basename pdf_file)) fs1 of
                (Inl copy_err, fs2) \<Rightarrow> (Inr (st2, format_stats1), fs2)
              | (Inr u, fs2) \<Rightarrow> (Inr (st2, format_stats1), fs2)))"

fun main_loop ::
  "(string \<times> path) list \<Rightarrow> path \<Rightarrow> bool \<Rightarrow> path list \<Rightarrow> stats \<Rightarrow> (string \<times> nat) list \<Rightarrow> filesystem
     \<Rightarrow> (exn + (stats \<times> (string \<times> nat) list)) \<times> filesystem" where
  "main_loop format_paths incorrect_path verbose [] st format_stats fs =
     (Inr (st, format_stats), fs)"
| "main_loop format_paths incorrect_path verbose (pdf_file # rest) st format_stats fs =
     (case validate_file format_paths incorrect_path verbose pdf_file st format_stats fs of
        (Inl e, fs1) \<Rightarrow> (Inl e, fs1)
      | (Inr (st1, format_stats1), fs1) \<Rightarrow>
          main_loop format_paths incorrect_path verbose rest st1 format_stats1 fs1)"

text \<open>
  Lines 274 to 314 of \<open>main\<close>: the counters are initialised from the list of PDF
  files and the loop runs over it.
\<close>

definition main_stats ::
  "(string \<times> path) list \<Rightarrow> path \<Rightarrow> bool \<Rightarrow> path list \<Rightarrow> filesystem
     \<Rightarrow> (exn + (stats \<times> (string \<times> nat) list)) \<times> filesystem" where
  "main_stats format_paths incorrect_path verbose pdf_files fs =
     main_loop format_paths incorrect_path verbose pdf_files
       \<lparr>total = length pdf_files, correct = 0, incorrect = 0\<rparr>
       (map (\<lambda>(format_name, titles). (format_name, 0)) ECG_FORMATS) fs"


section \<open>The mirrored region, as the specification words it\<close>

text \<open>
  The specification describes the region of a rectangle (x1, y1, x2, y2) on a page of
  width W as (x1, W - y2, x2, W - y1). \<open>mirrored\<close> is that description and
  \<open>region_entry\<close> is what a rectangle contributes to \<open>extracted_info\<close> when its text is
  read from that region; both are compared with the loops of \<open>censor_pdf\<close> below.
\<close>

definition mirrored :: "real \<Rightarrow> real list \<Rightarrow> rect" where
  "mirrored w r = (r ! 0, w - r ! 3, r ! 2, w - r ! 1)"

definition region_entry :: "page \<Rightarrow> real \<Rightarrow> nat \<times> real list \<Rightarrow> (nat \<times> info) list" where
  "region_entry pg w ir =
     (if truthy (extract_gender (clip_text pg (mirrored w (snd ir))))
         \<or> truthy (extract_age (clip_text pg (mirrored w (snd ir))))
      then [(fst ir, \<lparr>info_rect = mirrored w (snd ir),
                       gender = extract_gender (clip_text pg (mirrored w (snd ir))),
                       age = extract_age (clip_text pg (mirrored w (snd ir)))\<rparr>)]
      else [])"

text \<open>
  The three conditions under which the specification says \<open>censor_pdf\<close> gives no
  result: no page, a first page whose stripped text is empty, or no rectangle whose
  region holds a gender literal or an age match.
\<close>

definition no_result_condition :: "document \<Rightarrow> (int \<times> real list list) list \<Rightarrow> bool" where
  "no_result_condition doc coordinates_dict =
     (pages doc = []
      \<or> strip (page_text (pages doc ! 0)) = []
      \<or> list_all (\<lambda>r. length r = 4 \<longrightarrow>
                      \<not> str_in ''Masculino''
                           (clip_text (pages doc ! 0) (mirrored (page_width (pages doc ! 0)) r))
                      \<and> \<not> str_in ''Femenino''
                           (clip_text (pages doc ! 0) (mirrored (page_width (pages doc ! 0)) r))
                      \<and> age_search
                           (clip_text (pages doc ! 0) (mirrored (page_width (pages doc ! 0)) r))
                         = None)
           (concat (map snd coordinates_dict)))"

section \<open>Example inputs\<close>

text \<open>
  A first page that carries each lead label as often as template 1 expects, with the
  patient line in the region that the rectangle (1, 2, 3, 4) is mirrored to on a page
  of width 10; a scanned page without text; and folders holding them.
\<close>

definition format1_text :: string where
  "format1_text = ''I II III V1 V1 V2 V3 V4 V5 V6 aVR aVL aVF''"

definition patient_line :: string where
  "patient_line = ''Masculino (45'' @ anos"

definition ecg_page :: page where
  "ecg_page =
     \<lparr>page_text = patient_line @ [CHR 0x0A] @ format1_text,
      clip_text = (\<lambda>r. if r = (1, 6, 3, 8) then patient_line else []),
      page_width = 10, page_height = 20,
      blocks = [\<lparr>block_type = 0, block_lines = [[''I II III V1 V1 V2 V3 V4 V5 V6 ''],
                                                   [''aVR aVL'', '' aVF'']]\<rparr>],
      redactions = [], inserted = []\<rparr>"

definition scanned_page :: page where
  "scanned_page =
     \<lparr>page_text = '' '', clip_text = (\<lambda>r. []), page_width = 10, page_height = 20,
      blocks = [\<lparr>block_type = 1, block_lines = []\<rparr>], redactions = [], inserted = []\<rparr>"

definition coordinates :: "(int \<times> real list list) list" where
  "coordinates = [(0, [[1, 2, 3, 4]]), (1, [[5, 6, 7]])]"

definition ecg_folder :: filesystem where
  "ecg_folder =
     \<lparr>files = (\<lambda>p. if p = ''in/a.pdf'' then Some (Pdf \<lparr>pages = [ecg_page]\<rparr>)
                   else if p = ''in/s.pdf'' then Some (Pdf \<lparr>pages = [scanned_page]\<rparr>)
                   else None),
      listing = (\<lambda>p. if p = ''in'' then Some [''a.pdf'', ''notes.txt'', ''s.pdf''] else None),
      denied = (\<lambda>p. False)\<rparr>"

definition censored_ecg :: document where
  "censored_ecg =
     \<lparr>pages = [ecg_page\<lparr>redactions := [(1, 6, 3, 8)],
                          inserted := [((90, 784), patient_line)]\<rparr>]\<rparr>"

text \<open>
  The same folder when nothing can be written below \<open>out\<close>; and a folder whose first
  entry \<open>d.pdf\<close> is a directory, followed by a good file.
\<close>

definition unwritable_out :: filesystem where
  "unwritable_out = ecg_folder\<lparr>denied := (\<lambda>p. prefix ''out/'' p)\<rparr>"

definition folder_with_directory :: filesystem where
  "folder_with_directory =
     ecg_folder\<lparr>listing := (\<lambda>p. if p = ''in'' then Some [''d.pdf'', ''a.pdf'']
                                  else if p = ''in/d.pdf'' then Some []
                                  else None)\<rparr>"

definition out_format_paths :: "(string \<times> path) list" where
  "out_format_paths = [(''format1'', ''out/Correct/format1''), (''format2'', ''out/Correct/format2'')]"

text \<open>A first page on which the label aVF is missing.\<close>

definition text_without_avf :: string where
  "text_without_avf = ''I II III V1 V1 V2 V3 V4 V5 V6 aVR aVL''"

definition format1_results :: results where
  "format1_results =
     \<lparr>is_valid = True,
      actual_counts =
        [(''I'', 1), (''II'', 1), (''III'', 1), (''V1'', 2), (''V2'', 1), (''V3'', 1),
         (''V4'', 1), (''V5'', 1), (''V6'', 1), (''aVR'', 1), (''aVL'', 1), (''aVF'', 1)],
      expected_counts = FORMAT1_TITLES,
      diagnostics =
        \<lparr>missing_titles = [], unexpected_counts = [],
         found_titles = [''I'', ''II'', ''III'', ''V1'', ''V2'', ''V3'', ''V4'', ''V5'', ''V6'',
                         ''aVR'', ''aVL'', ''aVF'']\<rparr>\<rparr>"

section \<open>Properties of the classifier\<close>

subsection \<open>The two results of check_all_formats go together\<close>

lemma formats_loop_both_or_neither:
  "formats_loop fmts text mf mr = Inr (mf', mr') \<Longrightarrow> (mf = None \<longleftrightarrow> mr = None)
     \<Longrightarrow> (mf' = None \<longleftrightarrow> mr' = None)"
proof (induction fmts arbitrary: mf mr)
  case Nil
  then show ?case by simp
next
  case (Cons fmt fmts)
  obtain name titles where fmt: "fmt = (name, titles)" by (cases fmt)
  show ?case
  proof (cases "check_graph_titles text titles")
    case (Inl e)
    with Cons.prems fmt show ?thesis by simp
  next
    case (Inr res)
    show ?thesis
    proof (cases "is_valid res")
      case True
      show ?thesis
      proof (cases "mf = None")
        case True
        with Cons.prems fmt Inr \<open>is_valid res\<close>
        have "formats_loop fmts text (Some name) (Some res) = Inr (mf', mr')" by simp
        from Cons.IH [OF this] show ?thesis by simp
      next
        case False
        with Cons.prems fmt Inr \<open>is_valid res\<close> show ?thesis by auto
      qed
    next
      case False
      with Cons.prems fmt Inr have "formats_loop fmts text mf mr = Inr (mf', mr')" by simp
      from Cons.IH [OF this Cons.prems(2)] show ?thesis .
    qed
  qed
qed

lemma format1_text_classified:
  "check_all_formats format1_text = Inr (Some ''format1'', Some format1_results)"
  by code_simp

text \<open>
  Whenever \<open>check_all_formats\<close> returns, its first component is \<open>None\<close> exactly when
  its second component is \<open>None\<close>; the same holds for \<open>validate_ecg_format\<close>, which
  returns the pair it got from \<open>check_all_formats\<close>.
\<close>

lemma returned_components_none_together:
  "(check_all_formats text = Inr (mf, res) \<longrightarrow> (mf = None \<longleftrightarrow> res = None))
   \<and> (validate_ecg_format fs pdf_path verbose = Inr (mf, res)
        \<longrightarrow> (mf = None \<longleftrightarrow> res = None))"
proof -
  have a: "mf' = None \<longleftrightarrow> res' = None" if "check_all_formats text' = Inr (mf', res')"
    for text' mf' res'
    using that formats_loop_both_or_neither [of ECG_FORMATS text' None None mf' res']
    by (simp add: check_all_formats_def check_all_formats_in_def)
  have b: "check_all_formats (extract_text_from_first_page fs pdf_path) = Inr (mf, res)"
    if "validate_ecg_format fs pdf_path verbose = Inr (mf, res)"
    using that by (auto simp: validate_ecg_format_def Let_def split: sum.splits if_splits)
  show ?thesis using a b by blast
qed

text \<open>
  C9. A text that matches no format does not make \<open>check_all_formats\<close> return
  \<open>(None, None)\<close> when a label is absent from it: on the text \<open>ecg report\<close> and on
  the empty text the function raises \<open>re.error\<close>, and so does \<open>validate_ecg_format\<close>
  on a scanned PDF and on a missing file, whose extracted text is empty. Where every
  label is present the pair is as documented: a text with a wrong count gives
  \<open>(None, None)\<close>, and a text that satisfies template 1 gives the format name with
  its results.
\<close>

theorem no_match_raises_instead_of_none:
  "check_all_formats ''ecg report'' = Inl Re_error
   \<and> check_all_formats [] = Inl Re_error
   \<and> validate_ecg_format ecg_folder ''in/s.pdf'' False = Inl Re_error
   \<and> validate_ecg_format ecg_folder ''in/missing.pdf'' False = Inl Re_error
   \<and> check_all_formats ''I II II II III V1 V1 V2 V3 V4 V5 V6 aVR aVL aVF'' = Inr (None, None)
   \<and> validate_ecg_format ecg_folder ''in/a.pdf'' True
       = Inr (Some ''format1'', Some format1_results)"
  by code_simp

subsection \<open>An ambiguous match is no match\<close>

text \<open>
  C1. For any format dictionary of two templates (the shipped \<open>ECG_FORMATS\<close> is one):
  if the text satisfies both templates, the result is \<open>(None, None)\<close>; and a format is
  returned only when exactly one of the two templates is satisfied.
\<close>

theorem both_match_is_no_match:
  "(template_matches body ta \<and> template_matches body tb
      \<longrightarrow> check_all_formats_in [(na, ta), (nb, tb)] body = Inr (None, None))
   \<and> (check_all_formats_in [(na, ta), (nb, tb)] body = Inr (Some f, r)
      \<longrightarrow> template_matches body ta \<noteq> template_matches body tb)
   \<and> (check_all_formats doc_text = Inr (Some fmt, res)
      \<longrightarrow> template_matches doc_text FORMAT1_TITLES \<noteq> template_matches doc_text FORMAT2_TITLES)"
  by (auto simp: check_all_formats_def ECG_FORMATS_def check_all_formats_in_def
                 template_matches_def split: sum.splits if_splits)

theorem both_match_is_no_match_witness:
  "template_matches ''I V1 V1'' [(''I'', 1)] \<and> template_matches ''I V1 V1'' [(''V1'', 2)]
   \<and> check_all_formats_in [(''one'', [(''I'', 1)]), (''two'', [(''V1'', 2)])] ''I V1 V1''
       = Inr (None, None)
   \<and> check_all_formats format1_text = Inr (Some ''format1'', Some format1_results)
   \<and> template_matches format1_text FORMAT1_TITLES
   \<and> \<not> template_matches format1_text FORMAT2_TITLES"
proof -
  have h1: "template_matches ''I V1 V1'' [(''I'', 1)]" by code_simp
  have h2: "template_matches ''I V1 V1'' [(''V1'', 2)]" by code_simp
  have h3: "template_matches format1_text FORMAT1_TITLES" by code_simp
  from both_match_is_no_match
         [where body = "''I V1 V1''" and ta = "[(''I'', 1)]" and tb = "[(''V1'', 2)]"
            and na = "''one''" and nb = "''two''" and doc_text = format1_text
            and fmt = "''format1''" and res = "Some format1_results"]
       h1 h2 h3 format1_text_classified
  show ?thesis by simp
qed

section \<open>Properties of the redactor\<close>

subsection \<open>Gender: Masculino is tested first\<close>

text \<open>
  C10. A rectangle text that contains both literals yields the gender Masculino, and
  Femenino is extracted only from a text without Masculino; the first pass of
  \<open>censor_pdf\<close> stores that gender for the rectangle.
\<close>

theorem gender_masculino_first:
  "(str_in ''Masculino'' text \<and> str_in ''Femenino'' text
      \<longrightarrow> extract_gender text = Some ''Masculino'')
   \<and> (extract_gender text = Some ''Femenino'' \<longrightarrow> \<not> str_in ''Masculino'' text)
   \<and> (length r = 4 \<and> str_in ''Masculino'' (clip_text pg (r ! 0, w - r ! 3, r ! 2, w - r ! 1))
      \<longrightarrow> map (\<lambda>(i, e). gender e) (extract_pass pg w i [r]) = [Some ''Masculino''])"
  by (simp add: extract_gender_def Let_def truthy_def)

theorem gender_masculino_first_witness:
  "str_in ''Masculino'' ''Femenino / Masculino'' \<and> str_in ''Femenino'' ''Femenino / Masculino''
   \<and> extract_gender ''Femenino / Masculino'' = Some ''Masculino''
   \<and> extract_gender ''Sexo: Femenino'' = Some ''Femenino''
   \<and> \<not> str_in ''Masculino'' ''Sexo: Femenino''
   \<and> map (\<lambda>(i, e). gender e) (extract_pass ecg_page 10 0 [[1, 2, 3, 4]]) = [Some ''Masculino'']"
proof -
  have h1: "str_in ''Masculino'' ''Femenino / Masculino''" by code_simp
  have h2: "str_in ''Femenino'' ''Femenino / Masculino''" by code_simp
  have h3: "extract_gender ''Sexo: Femenino'' = Some ''Femenino''" by code_simp
  have h4: "length [1, 2, 3, 4 :: real] = 4
            \<and> str_in ''Masculino''
                 (clip_text ecg_page ([1, 2, 3, 4] ! 0, 10 - [1, 2, 3, 4] ! 3,
                                      [1, 2, 3, 4] ! 2, 10 - [1, 2, 3, 4] ! 1))"
    by (simp add: ecg_page_def patient_line_def)
  from gender_masculino_first [of "''Femenino / Masculino''" "[1, 2, 3, 4]" ecg_page 10 0] h1 h2
  have c1: "extract_gender ''Femenino / Masculino'' = Some ''Masculino''" by blast
  from gender_masculino_first [of "''Sexo: Femenino''" "[1, 2, 3, 4]" ecg_page 10 0] h3
  have c2: "\<not> str_in ''Masculino'' ''Sexo: Femenino''" by blast
  from gender_masculino_first [of "''Femenino / Masculino''" "[1, 2, 3, 4]" ecg_page 10 0] h4
  have c3: "map (\<lambda>(i, e). gender e) (extract_pass ecg_page 10 0 [[1, 2, 3, 4]])
              = [Some ''Masculino'']" by blast
  show ?thesis using h1 h2 h3 c1 c2 c3 by simp
qed

subsection \<open>The output file is never the input file\<close>

lemma basename_no_slash: "CHR ''/'' \<notin> set (basename p)"
  by (auto simp: basename_def dest: set_takeWhileD)

lemma basename_append_slash:
  assumes "CHR ''/'' \<notin> set n"
  shows "basename (x @ CHR ''/'' # n) = n"
proof -
  have p: "\<And>c. c \<in> set (rev n) \<Longrightarrow> c \<noteq> CHR ''/''" using assms by auto
  have "takeWhile (\<lambda>c. c \<noteq> CHR ''/'') (rev n @ CHR ''/'' # rev x)
          = rev n @ takeWhile (\<lambda>c. c \<noteq> CHR ''/'') (CHR ''/'' # rev x)"
    by (rule takeWhile_append2) (rule p)
  then have t: "takeWhile (\<lambda>c. c \<noteq> CHR ''/'') (rev n @ CHR ''/'' # rev x) = rev n" by simp
  have "rev (x @ CHR ''/'' # n) = rev n @ CHR ''/'' # rev x" by simp
  then show ?thesis unfolding basename_def using t by simp
qed

lemma basename_id:
  assumes "CHR ''/'' \<notin> set n"
  shows "basename n = n"
proof -
  have "\<forall>c \<in> set (rev n). c \<noteq> CHR ''/''" using assms by auto
  then have t: "takeWhile (\<lambda>c. c \<noteq> CHR ''/'') (rev n) = rev n"
    by (simp only: takeWhile_eq_all_conv)
  show ?thesis unfolding basename_def t by simp
qed

lemma head_of_slash_free:
  assumes "CHR ''/'' \<notin> set n"
  shows "head_of n = []"
proof -
  have "\<forall>c \<in> set (rev n). c \<noteq> CHR ''/''" using assms by auto
  then have t: "dropWhile (\<lambda>c. c \<noteq> CHR ''/'') (rev n) = []"
    by (simp only: dropWhile_eq_Nil_conv)
  show ?thesis unfolding head_of_def t by simp
qed

lemma basename_join:
  assumes "CHR ''/'' \<notin> set n" and "n \<noteq> []"
  shows "basename (join d n) = n"
proof -
  from assms have np: "\<not> prefix ''/'' n" by (cases n) auto
  show ?thesis
  proof (cases "d = []")
    case True
    with np assms show ?thesis by (simp add: join_def basename_id)
  next
    case False
    show ?thesis
    proof (cases "endswith d ''/''")
      case True
      then obtain x where "rev d = CHR ''/'' # x" by (auto simp: endswith_def prefix_def)
      then have "rev (rev d) = rev (CHR ''/'' # x)" by simp
      then have d: "d = rev x @ ''/''" by simp
      have "join d n = rev x @ CHR ''/'' # n" using np True \<open>d \<noteq> []\<close> d by (simp add: join_def)
      then show ?thesis using basename_append_slash [OF assms(1), of "rev x"] by simp
    next
      case False
      with np \<open>d \<noteq> []\<close> have "join d n = d @ CHR ''/'' # n" by (simp add: join_def)
      then show ?thesis using basename_append_slash [OF assms(1), of d] by simp
    qed
  qed
qed


lemma split_last_dot:
  assumes "CHR ''.'' \<in> set n"
  shows "rev (tl (dropWhile (\<lambda>c. c \<noteq> CHR ''.'') (rev n)))
           @ CHR ''.'' # rev (takeWhile (\<lambda>c. c \<noteq> CHR ''.'') (rev n)) = n"
proof -
  define ds where "ds = dropWhile (\<lambda>c. c \<noteq> CHR ''.'') (rev n)"
  define ts where "ts = takeWhile (\<lambda>c. c \<noteq> CHR ''.'') (rev n)"
  have ne: "ds \<noteq> []" unfolding ds_def using assms by (auto simp: dropWhile_eq_Nil_conv)
  have "\<not> (hd ds \<noteq> CHR ''.'')"
    using hd_dropWhile [of "\<lambda>c. c \<noteq> CHR ''.''" "rev n"] ne unfolding ds_def by blast
  with ne have d: "ds = CHR ''.'' # tl ds" by (cases ds) auto
  have "rev n = ts @ ds" unfolding ts_def ds_def by simp
  then have "rev (rev n) = rev (ts @ CHR ''.'' # tl ds)" using d by simp
  then have "n = rev (tl ds) @ CHR ''.'' # rev ts" by simp
  then show ?thesis unfolding ds_def ts_def by simp
qed

lemma splitext_slash_free:
  assumes "CHR ''/'' \<notin> set n"
  shows "fst (splitext n) @ snd (splitext n) = n"
proof (cases "CHR ''.'' \<in> set n")
  case True
  from split_last_dot [OF True] show ?thesis
    by (simp add: splitext_def Let_def basename_id [OF assms] head_of_slash_free [OF assms])
next
  case False
  then show ?thesis
    by (simp add: splitext_def Let_def basename_id [OF assms])
qed

lemma censored_name:
  assumes "CHR ''/'' \<notin> set n"
  shows "CHR ''/'' \<notin> set (fst (splitext n) @ ''_censored'' @ snd (splitext n))"
proof -
  have "set (fst (splitext n) @ snd (splitext n)) = set n"
    by (simp only: splitext_slash_free [OF assms])
  then have "set (fst (splitext n)) \<union> set (snd (splitext n)) = set n" by simp
  with assms have "CHR ''/'' \<notin> set (fst (splitext n))" "CHR ''/'' \<notin> set (snd (splitext n))"
    by blast+
  then show ?thesis by simp
qed


lemma output_path_of_join:
  "output_path_of pdf_path output_dir
     = join (case output_dir of None \<Rightarrow> dirname pdf_path
             | Some d \<Rightarrow> if d \<noteq> [] then d else dirname pdf_path)
            (fst (splitext (basename pdf_path)) @ ''_censored''
               @ snd (splitext (basename pdf_path)))"
  by (simp add: output_path_of_def Let_def case_prod_beta split: option.splits)

lemma output_path_basename:
  "basename (output_path_of pdf_path output_dir)
     = fst (splitext (basename pdf_path)) @ ''_censored'' @ snd (splitext (basename pdf_path))"
proof -
  have "fst (splitext (basename pdf_path)) @ ''_censored'' @ snd (splitext (basename pdf_path))
          \<noteq> []" by simp
  with censored_name [OF basename_no_slash [of pdf_path]] show ?thesis
    unfolding output_path_of_join by (rule basename_join)
qed

lemma output_path_differs: "output_path_of pdf_path output_dir \<noteq> pdf_path"
proof
  assume "output_path_of pdf_path output_dir = pdf_path"
  then have "basename (output_path_of pdf_path output_dir) = basename pdf_path" by simp
  then have "fst (splitext (basename pdf_path)) @ ''_censored'' @ snd (splitext (basename pdf_path))
               = basename pdf_path"
    by (simp only: output_path_basename)
  then have "length (fst (splitext (basename pdf_path)) @ ''_censored'' @ snd (splitext (basename pdf_path)))
               = length (fst (splitext (basename pdf_path)) @ snd (splitext (basename pdf_path)))"
    by (simp only: splitext_slash_free [OF basename_no_slash])
  then show False by simp
qed


lemma prepare_output_dir_files: "files (snd (prepare_output_dir output_dir fs)) = files fs"
  by (simp add: prepare_output_dir_def makedirs_def split: option.splits)

lemma doc_save_files:
  "p \<noteq> out \<Longrightarrow> files (snd (doc_save d out fs)) p = files fs p"
  by (simp add: doc_save_def)

lemma censor_pdf_cases:
  "snd (censor_pdf pdf_path cd output_dir include_info fs) = snd (prepare_output_dir output_dir fs)
   \<or> (\<exists>d. snd (censor_pdf pdf_path cd output_dir include_info fs)
            = snd (doc_save d (output_path_of pdf_path output_dir)
                     (snd (prepare_output_dir output_dir fs))))"
proof (cases "prepare_output_dir output_dir fs")
  case (Pair r fs1)
  show ?thesis
  proof (cases r)
    case (Inl e)
    with Pair show ?thesis by (simp add: censor_pdf_def)
  next
    case (Inr u)
    show ?thesis
    proof (cases "fitz_open fs1 pdf_path")
      case (Inl e)
      with Pair Inr show ?thesis by (simp add: censor_pdf_def)
    next
      case open_ok: (Inr doc)
      show ?thesis
      proof (cases "censor_document doc cd include_info")
        case None
        with Pair Inr open_ok show ?thesis by (simp add: censor_pdf_def)
      next
        case (Some d)
        obtain r2 fs2 where s: "doc_save d (output_path_of pdf_path output_dir) fs1 = (r2, fs2)"
          by (cases "doc_save d (output_path_of pdf_path output_dir) fs1")
        have "snd (censor_pdf pdf_path cd output_dir include_info fs) = fs2"
          using Pair Inr open_ok Some s by (cases r2) (simp_all add: censor_pdf_def)
        moreover have "snd (doc_save d (output_path_of pdf_path output_dir)
                              (snd (prepare_output_dir output_dir fs))) = fs2"
          using Pair s by simp
        ultimately have "snd (censor_pdf pdf_path cd output_dir include_info fs)
            = snd (doc_save d (output_path_of pdf_path output_dir)
                     (snd (prepare_output_dir output_dir fs)))" by simp
        then show ?thesis by blast
      qed
    qed
  qed
qed

lemma censor_pdf_frame:
  assumes "p \<noteq> output_path_of pdf_path output_dir"
  shows "files (snd (censor_pdf pdf_path cd output_dir include_info fs)) p = files fs p"
  using censor_pdf_cases [of pdf_path cd output_dir include_info fs]
        doc_save_files [OF assms] prepare_output_dir_files [of output_dir fs]
  by auto

text \<open>
  C8. The output path differs from the input path: its base name is the input's base
  name with \<open>_censored\<close> put before the extension. \<open>censor_pdf\<close> leaves the input
  file as it was, and every other file except the one at the output path.
\<close>

theorem censor_pdf_never_overwrites_input:
  "output_path_of pdf_path output_dir \<noteq> pdf_path
   \<and> basename (output_path_of pdf_path output_dir)
       = fst (splitext (basename pdf_path)) @ ''_censored'' @ snd (splitext (basename pdf_path))
   \<and> files (snd (censor_pdf pdf_path cd output_dir include_info fs)) pdf_path = files fs pdf_path
   \<and> (\<forall>p. p \<noteq> output_path_of pdf_path output_dir
          \<longrightarrow> files (snd (censor_pdf pdf_path cd output_dir include_info fs)) p = files fs p)"
  using output_path_differs [of pdf_path output_dir] output_path_basename [of pdf_path output_dir]
        censor_pdf_frame [of _ pdf_path output_dir cd include_info fs]
  by (metis (no_types))

lemma out_a: "output_path_of ''in/a.pdf'' (Some ''out'') = ''out/a_censored.pdf''"
  by code_simp

lemma saved_a:
  "fst (censor_pdf ''in/a.pdf'' coordinates (Some ''out'') True ecg_folder)
     = Inr (Some ''out/a_censored.pdf'')"
  by code_simp

lemma saved_a_file:
  "Option.is_none (files (snd (censor_pdf ''in/a.pdf'' coordinates (Some ''out'') True ecg_folder))
      ''out/a_censored.pdf'') = False"
  by code_simp

lemma in_a: "files ecg_folder ''in/a.pdf'' = Some (Pdf \<lparr>pages = [ecg_page]\<rparr>)"
  by (simp add: ecg_folder_def)

theorem censor_pdf_never_overwrites_input_witness:
  "output_path_of ''in/a.pdf'' (Some ''out'') = ''out/a_censored.pdf''
   \<and> ''in/a.pdf'' \<noteq> output_path_of ''in/a.pdf'' (Some ''out'')
   \<and> fst (censor_pdf ''in/a.pdf'' coordinates (Some ''out'') True ecg_folder)
       = Inr (Some ''out/a_censored.pdf'')
   \<and> files (snd (censor_pdf ''in/a.pdf'' coordinates (Some ''out'') True ecg_folder)) ''in/a.pdf''
       = Some (Pdf \<lparr>pages = [ecg_page]\<rparr>)"
proof -
  have ne: "''in/a.pdf'' \<noteq> output_path_of ''in/a.pdf'' (Some ''out'')"
    by (simp add: out_a)
  from censor_pdf_never_overwrites_input
         [of "''in/a.pdf''" "Some ''out''" coordinates True ecg_folder]
  have "files (snd (censor_pdf ''in/a.pdf'' coordinates (Some ''out'') True ecg_folder)) ''in/a.pdf''
          = files ecg_folder ''in/a.pdf''"
    using ne by blast
  with ne out_a saved_a in_a show ?thesis by simp
qed

subsection \<open>The region of a rectangle\<close>

lemma redact_pass_mirrored:
  "redact_pass w rects = map (mirrored w) (filter (\<lambda>r. length r = 4) rects)"
  by (induction rects) (simp_all add: mirrored_def Let_def)

lemma extract_pass_mirrored:
  "extract_pass pg w i rects
     = concat (map (region_entry pg w)
                 (filter (\<lambda>ir. length (snd ir) = 4) (zip [i..<i + length rects] rects)))"
proof (induction rects arbitrary: i)
  case Nil
  then show ?case by simp
next
  case (Cons r rects)
  have z: "zip [i..<i + length (r # rects)] (r # rects)
             = (i, r) # zip [Suc i..<Suc i + length rects] rects"
  proof -
    have "[i..<Suc (i + length rects)] = i # [Suc i..<Suc (i + length rects)]"
      by (rule upt_conv_Cons) simp
    then have "[i..<i + length (r # rects)] = i # [Suc i..<Suc i + length rects]"
      by (simp del: upt_Suc)
    then show ?thesis by (simp only: zip_Cons_Cons)
  qed
  show ?case
  proof (cases "length r = 4")
    case True
    then show ?thesis
      unfolding z using Cons.IH [of "Suc i"]
      by (simp add: region_entry_def mirrored_def Let_def)
  next
    case False
    then show ?thesis
      unfolding z using Cons.IH [of "Suc i"] by simp
  qed
qed

lemma censor_document_redactions:
  assumes "censor_document doc cd include_info = Some doc'"
  shows "redactions (pages doc' ! 0)
           = redactions (pages doc ! 0)
             @ redact_pass (page_width (pages doc ! 0)) (concat (map snd cd))"
proof -
  from assms have ne: "pages doc \<noteq> []"
    by (auto simp: censor_document_def split: if_splits)
  from assms show ?thesis using ne
    by (auto simp: censor_document_def Let_def nth_list_update split: if_splits)
qed

text \<open>
  C4. Both loops of \<open>censor_pdf\<close> use, for a rectangle (x1, y1, x2, y2) of length 4,
  the region (x1, W - y2, x2, W - y1): the redaction pass redacts exactly the mirrored
  regions of the rectangles of length 4, the extraction pass reads the text of exactly
  those regions, and the saved page carries exactly those redactions. The x
  coordinates are unchanged and y1 \<le> y2 keeps W - y2 \<le> W - y1. Rectangles of another
  length are skipped by both passes.
\<close>

theorem regions_are_mirrored:
  "redact_pass w rects = map (mirrored w) (filter (\<lambda>r. length r = 4) rects)
   \<and> extract_pass pg w i rects
       = concat (map (region_entry pg w)
                   (filter (\<lambda>ir. length (snd ir) = 4) (zip [i..<i + length rects] rects)))
   \<and> (censor_document doc cd include_info = Some doc'
        \<longrightarrow> redactions (pages doc' ! 0)
             = redactions (pages doc ! 0)
               @ map (mirrored (page_width (pages doc ! 0)))
                   (filter (\<lambda>r. length r = 4) (concat (map snd cd))))
   \<and> mirrored w [x1, y1, x2, y2] = (x1, w - y2, x2, w - y1)
   \<and> (y1 \<le> y2
        \<longrightarrow> fst (snd (mirrored w [x1, y1, x2, y2]))
              \<le> snd (snd (snd (mirrored w [x1, y1, x2, y2]))))"
  using redact_pass_mirrored [of w rects] extract_pass_mirrored [of pg w i rects]
        censor_document_redactions [of doc cd include_info doc']
        redact_pass_mirrored [of "page_width (pages doc ! 0)" "concat (map snd cd)"]
  by (simp add: mirrored_def)

lemma censor_ecg:
  "censor_document \<lparr>pages = [ecg_page]\<rparr> coordinates True = Some censored_ecg"
  by (simp add: censor_document_def coordinates_def ecg_page_def censored_ecg_def Let_def
        strip_def patient_line_def anos_def format1_text_def is_space_def
        extract_gender_def extract_age_def age_at_def is_digit_def truthy_def)

theorem regions_are_mirrored_witness:
  "censor_document \<lparr>pages = [ecg_page]\<rparr> coordinates True = Some censored_ecg
   \<and> redactions (pages censored_ecg ! 0) = [(1, 6, 3, 8)]
   \<and> redact_pass 10 [[1, 2, 3, 4], [5, 6, 7]] = [(1, 6, 3, 8)]
   \<and> (2 :: real) \<le> 4
   \<and> mirrored 10 [1, 2, 3, 4] = (1, 6, 3, 8)"
proof -
  have le: "(2 :: real) \<le> 4" by simp
  from regions_are_mirrored
         [of 10 "[[1, 2, 3, 4], [5, 6, 7]]" ecg_page 0 "\<lparr>pages = [ecg_page]\<rparr>" coordinates True
             censored_ecg 1 2 3 4]
       censor_ecg le
  show ?thesis by (simp add: censored_ecg_def mirrored_def)
qed

subsection \<open>When censor_pdf gives no result\<close>

lemma truthy_gender:
  "truthy (extract_gender t) \<longleftrightarrow> str_in ''Masculino'' t \<or> str_in ''Femenino'' t"
  by (simp add: extract_gender_def truthy_def)

lemma truthy_age: "truthy (extract_age t) \<longleftrightarrow> age_search t \<noteq> None"
  by (simp add: extract_age_def truthy_def split: option.splits)

lemma extract_pass_empty_iff:
  "extract_pass pg w i rects = []
     \<longleftrightarrow> list_all (\<lambda>r. length r = 4 \<longrightarrow>
                        \<not> str_in ''Masculino'' (clip_text pg (mirrored w r))
                        \<and> \<not> str_in ''Femenino'' (clip_text pg (mirrored w r))
                        \<and> age_search (clip_text pg (mirrored w r)) = None) rects"
proof (induction rects arbitrary: i)
  case Nil
  then show ?case by simp
next
  case (Cons r rects)
  show ?case
  proof (cases "length r = 4")
    case True
    then show ?thesis
      using Cons.IH [of "Suc i"] truthy_gender [of "clip_text pg (mirrored w r)"]
            truthy_age [of "clip_text pg (mirrored w r)"]
      by (auto simp: Let_def mirrored_def)
  next
    case False
    then show ?thesis using Cons.IH [of "Suc i"] by simp
  qed
qed

lemma censor_document_none_iff:
  "censor_document doc cd include_info = None \<longleftrightarrow> no_result_condition doc cd"
proof -
  have "censor_document doc cd include_info = None
          \<longleftrightarrow> (pages doc = [] \<or> strip (page_text (pages doc ! 0)) = []
               \<or> extract_pass (pages doc ! 0) (page_width (pages doc ! 0)) 0
                    (concat (map snd cd)) = [])"
    by (simp add: censor_document_def Let_def)
  then show ?thesis
    by (simp only: extract_pass_empty_iff no_result_condition_def)
qed

lemma fitz_open_after_prepare:
  assumes "fitz_open fs p = Inr doc"
  shows "fitz_open (snd (prepare_output_dir output_dir fs)) p = Inr doc"
proof -
  from assms have "files fs p = Some (Pdf doc)"
    by (auto simp: fitz_open_def split: option.splits content.splits if_splits)
  then show ?thesis by (simp add: fitz_open_def prepare_output_dir_files)
qed

text \<open>
  C3. When the output directory can be prepared and the document opens,
  \<open>censor_pdf\<close> returns \<open>None\<close> exactly under the three conditions (no page, empty
  stripped text of the first page, no rectangle with a gender or an age), and then no
  file is written. Otherwise there is a redacted document, and when the save
  succeeds the function returns the output path, where that document is then stored.
\<close>

theorem censor_pdf_none_exactly_when:
  assumes "fst (prepare_output_dir output_dir fs) = Inr ()"
      and "fitz_open fs pdf_path = Inr doc"
  shows "(fst (censor_pdf pdf_path cd output_dir include_info fs) = Inr None
            \<longleftrightarrow> no_result_condition doc cd)
       \<and> (no_result_condition doc cd
            \<longrightarrow> files (snd (censor_pdf pdf_path cd output_dir include_info fs)) = files fs)
       \<and> (\<not> no_result_condition doc cd
            \<longrightarrow> (\<exists>d. censor_document doc cd include_info = Some d))
       \<and> (\<forall>d. censor_document doc cd include_info = Some d
                \<and> fst (doc_save d (output_path_of pdf_path output_dir)
                          (snd (prepare_output_dir output_dir fs))) = Inr ()
            \<longrightarrow> fst (censor_pdf pdf_path cd output_dir include_info fs)
                  = Inr (Some (output_path_of pdf_path output_dir))
                \<and> files (snd (censor_pdf pdf_path cd output_dir include_info fs))
                     (output_path_of pdf_path output_dir) = Some (Pdf d))"
proof -
  obtain fs1 where prep: "prepare_output_dir output_dir fs = (Inr (), fs1)"
    using assms(1) by (cases "prepare_output_dir output_dir fs") auto
  have fs1: "files fs1 = files fs"
    using prepare_output_dir_files [of output_dir fs] prep by simp
  have opened: "fitz_open fs1 pdf_path = Inr doc"
    using fitz_open_after_prepare [OF assms(2), of output_dir] prep by simp
  show ?thesis
  proof (cases "censor_document doc cd include_info")
    case None
    then have rej: "no_result_condition doc cd"
      using censor_document_none_iff [of doc cd include_info] by simp
    have "censor_pdf pdf_path cd output_dir include_info fs = (Inr None, fs1)"
      using prep opened None by (simp add: censor_pdf_def)
    with rej fs1 None show ?thesis by simp
  next
    case (Some d)
    then have acc: "\<not> no_result_condition doc cd"
      using censor_document_none_iff [of doc cd include_info] by simp
    obtain r2 fs2 where sv: "doc_save d (output_path_of pdf_path output_dir) fs1 = (r2, fs2)"
      by (cases "doc_save d (output_path_of pdf_path output_dir) fs1")
    have res: "censor_pdf pdf_path cd output_dir include_info fs
                 = (case r2 of Inl e \<Rightarrow> (Inl e, fs2)
                    | Inr u \<Rightarrow> (Inr (Some (output_path_of pdf_path output_dir)), fs2))"
      using prep opened Some sv by (cases r2) (simp_all add: censor_pdf_def)
    have not_none: "fst (censor_pdf pdf_path cd output_dir include_info fs) \<noteq> Inr None"
      using res by (cases r2) simp_all
    have saved: "fst (censor_pdf pdf_path cd output_dir include_info fs)
                   = Inr (Some (output_path_of pdf_path output_dir))
                 \<and> files (snd (censor_pdf pdf_path cd output_dir include_info fs))
                      (output_path_of pdf_path output_dir) = Some (Pdf d)"
      if ok: "r2 = Inr ()"
    proof -
      from sv ok have "fs2 = fs1\<lparr>files := (files fs1)(output_path_of pdf_path output_dir \<mapsto> Pdf d)\<rparr>"
        by (auto simp: doc_save_def split: if_splits)
      with res ok show ?thesis by simp
    qed
    from acc not_none saved sv prep Some show ?thesis by simp
  qed
qed

lemma prepare_out: "fst (prepare_output_dir (Some ''out'') ecg_folder) = Inr ()"
  by (simp add: prepare_output_dir_def makedirs_def ecg_folder_def)

lemma open_a: "fitz_open ecg_folder ''in/a.pdf'' = Inr \<lparr>pages = [ecg_page]\<rparr>"
  by (simp add: fitz_open_def ecg_folder_def)

lemma open_s: "fitz_open ecg_folder ''in/s.pdf'' = Inr \<lparr>pages = [scanned_page]\<rparr>"
  by (simp add: fitz_open_def ecg_folder_def)

lemma scanned_rejected: "no_result_condition \<lparr>pages = [scanned_page]\<rparr> coordinates"
  by (simp add: no_result_condition_def scanned_page_def strip_def is_space_def)

lemma save_a:
  "fst (doc_save censored_ecg ''out/a_censored.pdf''
          (snd (prepare_output_dir (Some ''out'') ecg_folder))) = Inr ()"
  by (simp add: doc_save_def prepare_output_dir_def makedirs_def ecg_folder_def)

theorem censor_pdf_none_exactly_when_witness:
  "fst (prepare_output_dir (Some ''out'') ecg_folder) = Inr ()
   \<and> fitz_open ecg_folder ''in/s.pdf'' = Inr \<lparr>pages = [scanned_page]\<rparr>
   \<and> no_result_condition \<lparr>pages = [scanned_page]\<rparr> coordinates
   \<and> fst (censor_pdf ''in/s.pdf'' coordinates (Some ''out'') True ecg_folder) = Inr None
   \<and> files (snd (censor_pdf ''in/s.pdf'' coordinates (Some ''out'') True ecg_folder))
       = files ecg_folder
   \<and> fitz_open ecg_folder ''in/a.pdf'' = Inr \<lparr>pages = [ecg_page]\<rparr>
   \<and> censor_document \<lparr>pages = [ecg_page]\<rparr> coordinates True = Some censored_ecg
   \<and> fst (censor_pdf ''in/a.pdf'' coordinates (Some ''out'') True ecg_folder)
       = Inr (Some ''out/a_censored.pdf'')
   \<and> files (snd (censor_pdf ''in/a.pdf'' coordinates (Some ''out'') True ecg_folder))
        ''out/a_censored.pdf'' = Some (Pdf censored_ecg)"
proof -
  note s = censor_pdf_none_exactly_when
             [OF prepare_out open_s, where cd = coordinates and include_info = True]
  note a = censor_pdf_none_exactly_when
             [OF prepare_out open_a, where cd = coordinates and include_info = True]
  from s scanned_rejected
  have c1: "fst (censor_pdf ''in/s.pdf'' coordinates (Some ''out'') True ecg_folder) = Inr None"
   and c2: "files (snd (censor_pdf ''in/s.pdf'' coordinates (Some ''out'') True ecg_folder))
              = files ecg_folder"
    by blast+
  from a censor_ecg save_a
  have c3: "fst (censor_pdf ''in/a.pdf'' coordinates (Some ''out'') True ecg_folder)
              = Inr (Some ''out/a_censored.pdf'')
            \<and> files (snd (censor_pdf ''in/a.pdf'' coordinates (Some ''out'') True ecg_folder))
                ''out/a_censored.pdf'' = Some (Pdf censored_ecg)"
    by (simp add: out_a)
  from prepare_out open_s scanned_rejected c1 c2 open_a censor_ecg c3
  show ?thesis by simp
qed

section \<open>What check_graph_titles counts, and when it raises\<close>

text \<open>
  The third pattern never yields a count: whenever the first two patterns find
  nothing for a label, \<open>re.findall\<close> raises on the third. So a count that
  \<open>check_graph_titles\<close> records is never 0, the list \<open>missing_titles\<close> of a returned
  result is empty, and a returned result is valid exactly when every count equals
  the expected one.
\<close>

lemma try_patterns_found:
  assumes "try_patterns (patterns t) processed_text = Inr x"
  shows "\<exists>c. x = Some c \<and> 1 \<le> c"
proof (cases "scan (Word_bounded t) 0 None processed_text = []")
  case False
  then have "1 \<le> int (length (scan (Word_bounded t) 0 None processed_text))"
    by (cases "scan (Word_bounded t) 0 None processed_text") simp_all
  moreover from assms False
  have "x = Some (int (length (scan (Word_bounded t) 0 None processed_text)))"
    by (simp add: patterns_def re_findall_def)
  ultimately show ?thesis by blast
next
  case True
  show ?thesis
  proof (cases "scan (Followed t) 0 None processed_text = []")
    case False
    then have "1 \<le> int (length (scan (Followed t) 0 None processed_text))"
      by (cases "scan (Followed t) 0 None processed_text") simp_all
    moreover from assms True False
    have "x = Some (int (length (scan (Followed t) 0 None processed_text)))"
      by (simp add: patterns_def re_findall_def)
    ultimately show ?thesis by blast
  next
    case empty: True
    with assms True show ?thesis by (simp add: patterns_def re_findall_def)
  qed
qed

lemma try_patterns_raises_iff:
  "try_patterns (patterns t) processed_text = Inl Re_error
     \<longleftrightarrow> re_findall (Word_bounded t) processed_text = Inr []
         \<and> re_findall (Followed t) processed_text = Inr []"
  by (simp add: patterns_def re_findall_def)

lemma count_title_positive:
  assumes "count_title processed_text title = Inr c"
  shows "1 \<le> c"
proof (cases "try_patterns (patterns (upper title)) processed_text")
  case (Inl e)
  with assms show ?thesis by (simp add: count_title_def)
next
  case (Inr x)
  from try_patterns_found [OF Inr] obtain c' where "x = Some c'" "1 \<le> c'" by blast
  with assms Inr show ?thesis by (simp add: count_title_def)
qed

lemma count_title_raises_iff:
  "count_title processed_text title = Inl Re_error
     \<longleftrightarrow> re_findall (Word_bounded (upper title)) processed_text = Inr []
         \<and> re_findall (Followed (upper title)) processed_text = Inr []"
proof (cases "try_patterns (patterns (upper title)) processed_text")
  case (Inl e)
  then have "e = Re_error"
    by (auto simp: patterns_def re_findall_def split: if_splits)
  with Inl show ?thesis
    using try_patterns_raises_iff [of "upper title" processed_text]
    by (simp add: count_title_def)
next
  case (Inr x)
  then show ?thesis
    using try_patterns_raises_iff [of "upper title" processed_text]
    by (auto simp: count_title_def split: option.splits)
qed

lemma map_of_dict_set:
  "map_of (dict_set k v d) k' = (if k' = k then Some v else map_of d k')"
  by (induction d) auto

lemma dict_set_not_empty: "dict_set k v d \<noteq> []"
  by (cases d) auto

lemma count_pass_positive:
  assumes "count_pass processed_text t counts = Inr counts'"
      and "\<And>k v. map_of counts k = Some v \<Longrightarrow> 1 \<le> v"
  shows "map_of counts' k = Some v \<Longrightarrow> 1 \<le> v"
  using assms
proof (induction t arbitrary: counts)
  case Nil
  then show ?case by simp
next
  case (Cons p t)
  obtain title expected where p: "p = (title, expected)" by (cases p)
  from Cons.prems(2) p obtain c where
    c: "count_title processed_text title = Inr c"
    and rest: "count_pass processed_text t (dict_set title c counts) = Inr counts'"
    by (auto split: sum.splits)
  have "\<And>k v. map_of (dict_set title c counts) k = Some v \<Longrightarrow> 1 \<le> v"
    using count_title_positive [OF c] Cons.prems(3)
    by (auto simp: map_of_dict_set split: if_splits)
  from Cons.IH [OF Cons.prems(1) rest this] show ?case .
qed

lemma count_pass_keys:
  assumes "count_pass processed_text t counts = Inr counts'"
  shows "dom (map_of counts) \<union> fst ` set t \<subseteq> dom (map_of counts')"
  using assms
proof (induction t arbitrary: counts)
  case Nil
  then show ?case by simp
next
  case (Cons p t)
  obtain title expected where p: "p = (title, expected)" by (cases p)
  from Cons.prems p obtain c where
    rest: "count_pass processed_text t (dict_set title c counts) = Inr counts'"
    by (auto split: sum.splits)
  have "dom (map_of (dict_set title c counts)) = insert title (dom (map_of counts))"
    by (auto simp: map_of_dict_set dom_def)
  with Cons.IH [OF rest] p show ?case by auto
qed

lemma counted_labels_positive:
  assumes "count_pass processed_text t [] = Inr counts" and "title \<in> fst ` set t"
  shows "1 \<le> counter_get counts title"
proof -
  from count_pass_keys [OF assms(1)] assms(2) obtain v where v: "map_of counts title = Some v"
    by auto
  have "1 \<le> v" by (rule count_pass_positive [OF assms(1) _ v]) simp
  with v show ?thesis by (simp add: counter_get_def)
qed

lemma analyze_missing:
  "missing_titles (analyze t counts d)
     = missing_titles d @ map fst (filter (\<lambda>p. counter_get counts (fst p) = 0) t)"
  by (induction t arbitrary: d) (auto simp: Let_def)

lemma analyze_unexpected:
  "unexpected_counts (analyze t counts d) = []
     \<longleftrightarrow> unexpected_counts d = []
         \<and> (\<forall>p \<in> set t. counter_get counts (fst p) = 0 \<or> counter_get counts (fst p) = snd p)"
proof (induction t arbitrary: d)
  case Nil
  then show ?case by simp
next
  case (Cons p t)
  obtain title expected where p: "p = (title, expected)" by (cases p)
  consider (missing) "counter_get counts title = 0"
    | (unexpected) "counter_get counts title \<noteq> 0" "counter_get counts title \<noteq> expected"
    | (found) "counter_get counts title \<noteq> 0" "counter_get counts title = expected"
    by blast
  then show ?case
  proof cases
    case missing
    then show ?thesis
      using Cons.IH [of "d\<lparr>missing_titles := missing_titles d @ [title]\<rparr>"] p by simp
  next
    case unexpected
    then show ?thesis
      using Cons.IH [of "d\<lparr>unexpected_counts :=
                            dict_set title (expected, counter_get counts title)
                              (unexpected_counts d)\<rparr>"] p
      by (simp add: dict_set_not_empty)
  next
    case found
    then show ?thesis
      using Cons.IH [of "d\<lparr>found_titles := found_titles d @ [title]\<rparr>"] p by simp
  qed
qed

lemma check_graph_titles_returned:
  assumes "check_graph_titles text t = Inr res"
  shows "missing_titles (diagnostics res) = []"
    and "is_valid res \<longleftrightarrow> (\<forall>p \<in> set t. counter_get (actual_counts res) (fst p) = snd p)"
    and "\<forall>p \<in> set t. 1 \<le> counter_get (actual_counts res) (fst p)"
proof -
  from assms obtain counts where
    cp: "count_pass (upper text) t [] = Inr counts"
    and res: "res = \<lparr>is_valid = (length (missing_titles (analyze t counts no_diagnostics)) = 0
                                  \<and> length (unexpected_counts (analyze t counts no_diagnostics)) = 0),
                      actual_counts = counts, expected_counts = t,
                      diagnostics = analyze t counts no_diagnostics\<rparr>"
    by (auto simp: check_graph_titles_def Let_def split: sum.splits)
  have pos: "\<forall>p \<in> set t. 1 \<le> counter_get counts (fst p)"
    using counted_labels_positive [OF cp] by auto
  then have nz: "filter (\<lambda>p. counter_get counts (fst p) = 0) t = []"
    by (auto simp: filter_empty_conv)
  show "missing_titles (diagnostics res) = []"
    using nz by (simp add: res analyze_missing no_diagnostics_def)
  show "\<forall>p \<in> set t. 1 \<le> counter_get (actual_counts res) (fst p)"
    using pos by (simp add: res)
  have "is_valid res \<longleftrightarrow> (\<forall>p \<in> set t. counter_get counts (fst p) = 0
                                     \<or> counter_get counts (fst p) = snd p)"
    using nz by (simp add: res analyze_missing analyze_unexpected no_diagnostics_def)
  also have "\<dots> \<longleftrightarrow> (\<forall>p \<in> set t. counter_get counts (fst p) = snd p)"
    using pos by fastforce
  finally show "is_valid res \<longleftrightarrow> (\<forall>p \<in> set t. counter_get (actual_counts res) (fst p) = snd p)"
    by (simp add: res)
qed

lemma count_pass_records:
  assumes "count_pass processed_text t counts = Inr counts'"
      and "\<And>k v. map_of counts k = Some v \<Longrightarrow> count_title processed_text k = Inr v"
  shows "map_of counts' k = Some v \<Longrightarrow> count_title processed_text k = Inr v"
  using assms
proof (induction t arbitrary: counts)
  case Nil
  then show ?case by simp
next
  case (Cons p t)
  obtain title expected where p: "p = (title, expected)" by (cases p)
  from Cons.prems(2) p obtain c where
    c: "count_title processed_text title = Inr c"
    and rest: "count_pass processed_text t (dict_set title c counts) = Inr counts'"
    by (auto split: sum.splits)
  have "\<And>k v. map_of (dict_set title c counts) k = Some v
          \<Longrightarrow> count_title processed_text k = Inr v"
    using c Cons.prems(3) by (auto simp: map_of_dict_set split: if_splits)
  from Cons.IH [OF Cons.prems(1) rest this] show ?case .
qed

lemma actual_count_is_count_title:
  assumes "check_graph_titles text t = Inr res" and "title \<in> fst ` set t"
  shows "count_title (upper text) title = Inr (counter_get (actual_counts res) title)"
proof -
  from assms(1) obtain counts where
    cp: "count_pass (upper text) t [] = Inr counts" and ac: "actual_counts res = counts"
    by (auto simp: check_graph_titles_def Let_def split: sum.splits)
  from count_pass_keys [OF cp] assms(2) obtain v where v: "map_of counts title = Some v"
    by auto
  have "count_title (upper text) title = Inr v"
    by (rule count_pass_records [OF cp _ v]) simp
  with v ac show ?thesis by (simp add: counter_get_def)
qed

lemma shipped_templates_exclusive:
  "\<not> (template_matches text FORMAT1_TITLES \<and> template_matches text FORMAT2_TITLES)"
proof
  assume both: "template_matches text FORMAT1_TITLES \<and> template_matches text FORMAT2_TITLES"
  then obtain r1 r2 where
    r1: "check_graph_titles text FORMAT1_TITLES = Inr r1" "is_valid r1" and
    r2: "check_graph_titles text FORMAT2_TITLES = Inr r2" "is_valid r2"
    by (auto simp: template_matches_def split: sum.splits)
  have in1: "(''II'', 1) \<in> set FORMAT1_TITLES" by (simp add: FORMAT1_TITLES_def)
  have in2: "(''II'', 2) \<in> set FORMAT2_TITLES" by (simp add: FORMAT2_TITLES_def)
  from check_graph_titles_returned(2) [OF r1(1)] r1(2) in1
  have c1: "counter_get (actual_counts r1) ''II'' = 1" by fastforce
  from check_graph_titles_returned(2) [OF r2(1)] r2(2) in2
  have c2: "counter_get (actual_counts r2) ''II'' = 2" by fastforce
  have k1: "''II'' \<in> fst ` set FORMAT1_TITLES" using in1 by force
  have k2: "''II'' \<in> fst ` set FORMAT2_TITLES" using in2 by force
  from actual_count_is_count_title [OF r1(1) k1] actual_count_is_count_title [OF r2(1) k2] c1 c2
  show False by simp
qed

text \<open>A label that the first two patterns do not find makes the whole check raise.\<close>

lemma count_title_error: "count_title processed_text title = Inl e \<Longrightarrow> e = Re_error"
  by (auto simp: count_title_def patterns_def re_findall_def split: sum.splits if_splits)

lemma count_pass_error: "count_pass processed_text t counts = Inl e \<Longrightarrow> e = Re_error"
proof (induction t arbitrary: counts)
  case Nil
  then show ?case by simp
next
  case (Cons p t)
  obtain title expected where p: "p = (title, expected)" by (cases p)
  show ?case
  proof (cases "count_title processed_text title")
    case (Inl e')
    with Cons.prems p count_title_error [OF Inl] show ?thesis by simp
  next
    case (Inr c)
    with Cons.prems p have "count_pass processed_text t (dict_set title c counts) = Inl e"
      by simp
    then show ?thesis by (rule Cons.IH)
  qed
qed

lemma absent_label_raises:
  assumes "title \<in> fst ` set t"
      and "re_findall (Word_bounded (upper title)) (upper text) = Inr []"
      and "re_findall (Followed (upper title)) (upper text) = Inr []"
  shows "check_graph_titles text t = Inl Re_error"
proof (cases "check_graph_titles text t")
  case (Inl e)
  then have "count_pass (upper text) t [] = Inl e"
    by (auto simp: check_graph_titles_def Let_def split: sum.splits)
  from count_pass_error [OF this] Inl show ?thesis by simp
next
  case (Inr res)
  from actual_count_is_count_title [OF Inr assms(1)]
  have "count_title (upper text) title \<noteq> Inl Re_error" by simp
  with assms(2,3) count_title_raises_iff [of "upper text" title] show ?thesis by simp
qed

text \<open>
  C5. The patterns are tried in order and the first one with a match gives the count:
  two matches of the first pattern give 2, three matches of the second (where the
  first has none) give 3. Where the first two patterns have no match, the third one
  does not give the count 0: \<open>re.findall\<close> raises \<open>re.error\<close> for it, and so does the
  count of the label.
\<close>

theorem third_pattern_raises:
  "re_findall (Word_bounded ''V1'') (upper ''ecg report'') = Inr []
   \<and> re_findall (Followed ''V1'') (upper ''ecg report'') = Inr []
   \<and> re_findall (Preceded_followed ''V1'') (upper ''ecg report'') = Inl Re_error
   \<and> count_title (upper ''ecg report'') ''V1'' = Inl Re_error
   \<and> count_title (upper ''v1 and V1'') ''V1'' = Inr 2
   \<and> count_title (upper ''xv1 yv1: zv1'') ''V1'' = Inr 3"
  by code_simp

text \<open>
  C2. On a first page that lacks the label aVF, \<open>check_graph_titles\<close> does not return
  a result with aVF under \<open>missing_titles\<close>: it raises \<open>re.error\<close>, and so does
  \<open>check_all_formats\<close>.
\<close>

theorem missing_label_raises:
  "check_graph_titles text_without_avf FORMAT1_TITLES = Inl Re_error
   \<and> check_all_formats text_without_avf = Inl Re_error"
  by code_simp

section \<open>Properties of the folder drivers\<close>

subsection \<open>process_pdf_folder: counts of a run that returns\<close>

lemma makedirs_raise_same: "makedirs d fs = (Inl e, fs') \<Longrightarrow> fs' = fs"
  by (auto simp: makedirs_def split: if_splits)

lemma makedirs_ok_again:
  assumes "makedirs d fs = (Inr u, fs1)"
  shows "makedirs d fs1 = (Inr (), fs1)"
  using assms by (auto simp: makedirs_def split: if_splits)

lemma makedirs_listing:
  assumes "makedirs d fs = (r, fs1)"
  shows "listing fs1 p = listing fs p \<or> (listing fs p = None \<and> listing fs1 p = Some [])"
  using assms by (auto simp: makedirs_def split: if_splits)

lemma copy2_raise_same: "copy2 src dst fs = (Inl e, fs') \<Longrightarrow> fs' = fs"
  by (auto simp: copy2_def Let_def split: option.splits if_splits)

lemma copy_to_failed_raises_again:
  assumes "copy_to_failed failed_dir pdf_path file_name fs = (Inl e, fs2)"
  shows "copy_to_failed failed_dir pdf_path file_name fs2 = (Inl e, fs2)"
proof (cases "makedirs failed_dir fs")
  case (Pair r fs1)
  show ?thesis
  proof (cases r)
    case (Inl e1)
    from Pair Inl have "fs1 = fs" using makedirs_raise_same by simp
    moreover from Pair Inl assms have "fs2 = fs1" "e1 = e" by (simp_all add: copy_to_failed_def)
    ultimately show ?thesis using Pair Inl by (simp add: copy_to_failed_def)
  next
    case (Inr u)
    with Pair assms have c: "copy2 pdf_path (join failed_dir file_name) fs1 = (Inl e, fs2)"
      by (simp add: copy_to_failed_def)
    then have same: "fs2 = fs1" by (rule copy2_raise_same)
    from Pair Inr have "makedirs failed_dir fs1 = (Inr (), fs1)"
      using makedirs_ok_again by simp
    with c same show ?thesis by (simp add: copy_to_failed_def)
  qed
qed

lemma process_file_counts:
  assumes "process_file folder_path cd output_dir include_info failed_dir file_name
             processed failed fs = (Inr (processed', failed'), fs')"
  shows "length processed' + length failed' = length processed + length failed + 1"
proof -
  obtain r p1 f1 fs1 where
    t: "try_file folder_path cd output_dir include_info failed_dir file_name processed failed fs
          = (r, (p1, f1), fs1)"
    by (metis prod.exhaust)
  obtain rc fsc where
    c: "censor_pdf (join folder_path file_name) cd (Some output_dir) include_info fs = (rc, fsc)"
    by (metis prod.exhaust)
  show ?thesis
  proof (cases rc)
    case (Inl e)
    with t c have "r = Inl e" "p1 = processed" "f1 = failed"
      by (simp_all add: try_file_def Let_def)
    with t assms show ?thesis
      by (auto simp: process_file_def split: prod.splits sum.splits)
  next
    case (Inr output_path)
    show ?thesis
    proof (cases "truthy output_path")
      case True
      with t c Inr have "r = Inr ()" "length p1 = length processed + 1" "f1 = failed"
        by (auto simp: try_file_def Let_def)
      with t assms show ?thesis by (auto simp: process_file_def)
    next
      case False
      obtain r2 fs2 where
        k: "copy_to_failed failed_dir (join folder_path file_name) file_name fsc = (r2, fs2)"
        by (metis prod.exhaust)
      with t c Inr False have
        tr: "r = r2" "p1 = processed" "f1 = failed @ [file_name]" "fs1 = fs2"
        by (simp_all add: try_file_def Let_def)
      show ?thesis
      proof (cases r2)
        case ok: (Inr u)
        with t tr assms show ?thesis by (auto simp: process_file_def)
      next
        case (Inl e)
        from copy_to_failed_raises_again k Inl
        have "copy_to_failed failed_dir (join folder_path file_name) file_name fs2 = (Inl e, fs2)"
          by simp
        with t tr Inl assms show ?thesis by (simp add: process_file_def)
      qed
    qed
  qed
qed

lemma folder_loop_counts:
  assumes "folder_loop folder_path cd output_dir include_info failed_dir names processed failed fs
             = (Inr (processed', failed'), fs')"
  shows "length processed' + length failed'
           = length processed + length failed + length (filter is_pdf_name names)"
  using assms
proof (induction names arbitrary: processed failed fs)
  case Nil
  then show ?case by simp
next
  case (Cons file_name rest)
  show ?case
  proof (cases "is_pdf_name file_name")
    case False
    with Cons.prems have
      "folder_loop folder_path cd output_dir include_info failed_dir rest processed failed fs
         = (Inr (processed', failed'), fs')" by simp
    from Cons.IH [OF this] False show ?thesis by simp
  next
    case True
    obtain r fs1 where
      pf: "process_file folder_path cd output_dir include_info failed_dir file_name
             processed failed fs = (r, fs1)"
      by (metis prod.exhaust)
    show ?thesis
    proof (cases r)
      case (Inl e)
      with pf True Cons.prems show ?thesis by simp
    next
      case (Inr both)
      obtain p1 f1 where both: "both = (p1, f1)" by (cases both)
      from pf Inr both True Cons.prems have
        rest: "folder_loop folder_path cd output_dir include_info failed_dir rest p1 f1 fs1
                 = (Inr (processed', failed'), fs')" by simp
      from pf Inr both have
        "length p1 + length f1 = length processed + length failed + 1"
        using process_file_counts by simp
      with Cons.IH [OF rest] True show ?thesis by simp
    qed
  qed
qed

lemma process_pdf_folder_counts:
  assumes "process_pdf_folder folder_path cd output_dir include_info fs
             = (Inr (processed_files, failed_files), fs')"
  shows "length processed_files + length failed_files
           = length (filter is_pdf_name
                       (case listing fs folder_path of None \<Rightarrow> [] | Some names \<Rightarrow> names))"
proof -
  define od where
    "od = (case output_dir of None \<Rightarrow> join (dirname folder_path) ''Censored PDFs''
           | Some d \<Rightarrow> d)"
  obtain r fs1 where m: "makedirs od fs = (r, fs1)" by (metis prod.exhaust)
  from assms m obtain u where r: "r = Inr u"
    by (cases r) (simp_all add: process_pdf_folder_def od_def Let_def)
  show ?thesis
  proof (cases "path_exists fs1 folder_path")
    case False
    then have "listing fs1 folder_path = None" by (simp add: path_exists_def)
    with makedirs_listing [OF m, of folder_path] have "listing fs folder_path = None" by auto
    moreover from assms m r False have "processed_files = []" "failed_files = []"
      by (simp_all add: process_pdf_folder_def od_def [symmetric] Let_def)
    ultimately show ?thesis by simp
  next
    case True
    with assms m r obtain names where
      l: "listing fs1 folder_path = Some names" and
      loop: "folder_loop folder_path cd od include_info (join od ''Failed'') names [] [] fs1
               = (Inr (processed_files, failed_files), fs')"
      by (auto simp: process_pdf_folder_def od_def [symmetric] Let_def listdir_def
               split: option.splits)
    from makedirs_listing [OF m, of folder_path] l have
      "listing fs folder_path = Some names \<or> (listing fs folder_path = None \<and> names = [])"
      by auto
    then have
      "filter is_pdf_name (case listing fs folder_path of None \<Rightarrow> [] | Some names \<Rightarrow> names)
         = filter is_pdf_name names" by auto
    with folder_loop_counts [OF loop] show ?thesis by simp
  qed
qed

subsection \<open>The classifier's loop always returns\<close>

lemma validate_file_returns:
  "\<exists>counters fs'. validate_file fpaths incorrect_path verbose pdf_file st format_stats fs
                     = (Inr counters, fs')"
proof -
  obtain r st1 fst1 fs1 where
    t: "try_validate fpaths incorrect_path verbose pdf_file st format_stats fs
          = (r, (st1, fst1), fs1)"
    by (metis prod.exhaust)
  show ?thesis
  proof (cases r)
    case (Inr u)
    with t show ?thesis by (simp add: validate_file_def)
  next
    case (Inl e)
    obtain r2 fs2 where
      "copy2 pdf_file (join incorrect_path (basename pdf_file)) fs1 = (r2, fs2)"
      by (metis prod.exhaust)
    with t Inl show ?thesis by (cases r2) (simp_all add: validate_file_def Let_def)
  qed
qed

lemma main_loop_returns:
  "\<exists>counters fs'. main_loop fpaths incorrect_path verbose pdf_files st format_stats fs
                     = (Inr counters, fs')"
proof (induction pdf_files arbitrary: st format_stats fs)
  case Nil
  then show ?case by simp
next
  case (Cons pdf_file rest)
  from validate_file_returns [of fpaths incorrect_path verbose pdf_file st format_stats fs]
  obtain st1 fst1 fs1 where
    "validate_file fpaths incorrect_path verbose pdf_file st format_stats fs
       = (Inr (st1, fst1), fs1)" by auto
  with Cons.IH [of st1 fst1 fs1] show ?case by simp
qed

text \<open>
  C6. A file that is classified as format 1 and whose copy then fails is counted as
  correct by the \<open>try\<close> block and as incorrect by the handler: with one input file the
  loop of \<open>main\<close> ends with \<open>correct + incorrect = 2\<close> and \<open>total = 1\<close>.
\<close>

theorem failed_copy_counted_twice:
  "(case fst (main_stats out_format_paths ''out/Incorrect'' False [''in/a.pdf''] unwritable_out) of
      Inl e \<Rightarrow> False
    | Inr (st, format_stats) \<Rightarrow>
        stats.total st = 1 \<and> correct st = 1 \<and> incorrect st = 1)"
  by code_simp

text \<open>
  C7. In \<open>process_pdf_folder\<close> the copy made by the \<open>except\<close> handler is not guarded:
  when the folder's first entry \<open>d.pdf\<close> is a directory, opening it raises, the
  handler's copy raises again, the function ends with that exception and the
  following file \<open>a.pdf\<close> is never processed. On the folder without that entry the
  function returns and processes \<open>a.pdf\<close>.
\<close>

theorem failed_copy_aborts_batch:
  "fst (process_pdf_folder ''in'' coordinates (Some ''out'') True folder_with_directory)
     = Inl IsADirectoryError
   \<and> Option.is_none
        (files (snd (process_pdf_folder ''in'' coordinates (Some ''out'') True folder_with_directory))
           ''out/a_censored.pdf'')
   \<and> fst (process_pdf_folder ''in'' coordinates (Some ''out'') True ecg_folder)
       = Inr ([''out/a_censored.pdf''], [''s.pdf''])"
  by code_simp

end
